theory Spec2Isabelle
  imports Complex_Main "HOL-Library.Sublist"
begin

section \<open>Strings and paths\<close>

text \<open>
  Python strings are modelled as \<^typ>\<open>string\<close>, and the character functions below are
  those of Python on ASCII text only: there \<open>str.lower\<close> maps \<open>A\<close>..\<open>Z\<close> to \<open>a\<close>..\<open>z\<close>,
  \<open>str.isspace\<close> and the class \<open>\s\<close> hold for the codes 9..13, 28..31 and 32, the class
  \<open>\w\<close> is letters, digits and the underscore, and \<open>\d\<close> is the ten digits. On other
  characters Python follows the Unicode tables (\<open>\w\<close> accepts accented letters, \<open>str.lower\<close>
  changes them), which this model does not; so every property below that depends on how a
  query or a content is lower-cased, split or matched is stated for ASCII text, with
  \<open>is_ascii\<close> as a hypothesis.
\<close>

definition code_of :: "char \<Rightarrow> nat" where
  "code_of c = of_char c"

definition lower_char :: "char \<Rightarrow> char" where
  "lower_char c = (if 65 \<le> code_of c \<and> code_of c \<le> 90 then char_of (code_of c + 32) else c)"

definition lower :: "string \<Rightarrow> string" where
  "lower s = map lower_char s"

definition is_space :: "char \<Rightarrow> bool" where
  "is_space c = ((9 \<le> code_of c \<and> code_of c \<le> 13) \<or> (28 \<le> code_of c \<and> code_of c \<le> 32))"

definition is_digit :: "char \<Rightarrow> bool" where
  "is_digit c = (48 \<le> code_of c \<and> code_of c \<le> 57)"

definition is_word_char :: "char \<Rightarrow> bool" where
  "is_word_char c = (is_digit c \<or> (65 \<le> code_of c \<and> code_of c \<le> 90)
     \<or> (97 \<le> code_of c \<and> code_of c \<le> 122) \<or> code_of c = 95)"

definition is_ascii :: "string \<Rightarrow> bool" where
  "is_ascii s = list_all (\<lambda>c. code_of c < 128) s"

text \<open>\<open>s.strip()\<close> is a non-empty string exactly when \<open>s\<close> has a non-blank character.\<close>

definition strip_nonempty :: "string \<Rightarrow> bool" where
  "strip_nonempty s = (\<exists>c \<in> set s. \<not> is_space c)"

text \<open>\<open>os.path.basename\<close>: what follows the last slash.\<close>

fun basename :: "string \<Rightarrow> string" where
  "basename [] = []"
| "basename (c # cs) = (if CHR ''/'' \<in> set cs then basename cs
                         else if c = CHR ''/'' then cs else c # cs)"

text \<open>
  \<open>os.path.splitext\<close> on a name without a slash: the extension starts at the last dot,
  unless only dots precede it.
\<close>

definition splitext :: "string \<Rightarrow> string \<times> string" where
  "splitext p =
     (let ext = rev (takeWhile (\<lambda>c. c \<noteq> CHR ''.'') (rev p));
          root = take (length p - length ext - 1) p
      in if CHR ''.'' \<in> set p \<and> (\<exists>c \<in> set root. c \<noteq> CHR ''.'')
         then (root, CHR ''.'' # ext) else (p, []))"

text \<open>\<open>os.path.join\<close> of a folder and a relative name.\<close>

definition path_join :: "string \<Rightarrow> string \<Rightarrow> string" where
  "path_join a b = (if a = [] \<or> last a = CHR ''/'' then a @ b else a @ ''/'' @ b)"

section \<open>Documents and the two folder loaders\<close>

text \<open>
  A document is a Python dictionary. The retriever reads \<open>file_name\<close> with \<open>doc['file_name']\<close>
  (a missing key raises) and \<open>content\<close> with \<open>doc.get('content', '')\<close>, so both are optional
  fields here; the loaders always fill them.
\<close>

record document =
  file_name :: "string option"
  file_path :: string
  content :: "string option"
  file_type :: string

datatype error = IOError string | KeyError string | IndexError | TransformError string

fun str_of_error :: "error \<Rightarrow> string" where
  "str_of_error (IOError m) = m"
| "str_of_error (KeyError m) = m"
| "str_of_error IndexError = ''list index out of range''"
| "str_of_error (TransformError m) = m"

text \<open>
  What the loaders see of the file system: \<open>os.path.exists\<close>, \<open>glob.glob\<close>, and the outcome
  of each extractor on a path. \<open>load_pdf\<close> and \<open>load_pdf_with_ocr_fallback\<close> wrap their whole
  body in \<open>try/except Exception\<close> and return a string on every path; \<open>load_docx\<close> and
  \<open>load_txt\<close> re-raise what goes wrong as an \<open>Exception\<close>.
\<close>

record filesystem =
  path_exists :: "string \<Rightarrow> bool"
  glob :: "string \<Rightarrow> string list"
  load_pdf :: "string \<Rightarrow> string"
  load_pdf_with_ocr_fallback :: "string \<Rightarrow> string"
  load_docx :: "string \<Rightarrow> error + string"
  load_txt :: "string \<Rightarrow> error + string"

definition file_patterns :: "string \<Rightarrow> string list" where
  "file_patterns folder_path =
     [path_join folder_path ''*.pdf'', path_join folder_path ''*.docx'',
      path_join folder_path ''*.txt'']"

definition all_files :: "filesystem \<Rightarrow> string \<Rightarrow> string list" where
  "all_files fs folder_path = concat (map (glob fs) (file_patterns folder_path))"

definition file_ext_of :: "string \<Rightarrow> string" where
  "file_ext_of p = lower (snd (splitext (basename p)))"

text \<open>The extractor chosen by extension; an unknown extension leaves \<open>content = ""\<close>.\<close>

definition extract_content :: "filesystem \<Rightarrow> string \<Rightarrow> error + string" where
  "extract_content fs p =
     (let file_ext = file_ext_of p in
      if file_ext = ''.pdf'' then Inr (load_pdf fs p)
      else if file_ext = ''.docx'' then load_docx fs p
      else if file_ext = ''.txt'' then load_txt fs p
      else Inr [])"

definition extract_with_ocr :: "filesystem \<Rightarrow> string \<Rightarrow> error + string" where
  "extract_with_ocr fs p =
     (let file_ext = file_ext_of p in
      if file_ext = ''.pdf'' then Inr (load_pdf_with_ocr_fallback fs p)
      else if file_ext = ''.docx'' then load_docx fs p
      else if file_ext = ''.txt'' then load_txt fs p
      else Inr [])"

definition mk_document :: "string \<Rightarrow> string \<Rightarrow> document" where
  "mk_document p c =
     \<lparr>file_name = Some (basename p), file_path = p, content = Some c, file_type = file_ext_of p\<rparr>"

definition no_content_note :: "string \<Rightarrow> string" where
  "no_content_note name =
     ''This file could not be processed. File: '' @ name @ [CHR 0x0A]
       @ ''Reason: No extractable text content found.''"

text \<open>
  One iteration of the loop of \<open>document_loader.load_documents_from_folder\<close>: the documents
  it appends. Its \<open>except\<close> branch prints and appends nothing.
\<close>

definition load_one :: "filesystem \<Rightarrow> string \<Rightarrow> document list" where
  "load_one fs p =
     (case extract_content fs p of
        Inl e \<Rightarrow> []
      | Inr c \<Rightarrow> if strip_nonempty c then [mk_document p c]
                 else [mk_document p (no_content_note (basename p))])"

definition load_documents_from_folder :: "filesystem \<Rightarrow> string \<Rightarrow> document list" where
  "load_documents_from_folder fs folder_path =
     (if \<not> path_exists fs folder_path then []
      else concat (map (load_one fs) (all_files fs folder_path)))"

text \<open>
  One iteration of the loop of \<open>document_loader_with_ocr.load_documents_from_folder_with_ocr\<close>:
  here the \<open>except\<close> branch appends an error document.
\<close>

definition load_one_with_ocr :: "filesystem \<Rightarrow> string \<Rightarrow> document list" where
  "load_one_with_ocr fs p =
     (case extract_with_ocr fs p of
        Inl e \<Rightarrow> [\<lparr>file_name = Some (basename p), file_path = p,
                    content = Some (''Error loading '' @ basename p @ '': '' @ str_of_error e),
                    file_type = lower (snd (splitext p))\<rparr>]
      | Inr c \<Rightarrow> if strip_nonempty c then [mk_document p c]
                 else [mk_document p (''Document could not be processed: '' @ basename p)])"

definition load_documents_from_folder_with_ocr :: "filesystem \<Rightarrow> string \<Rightarrow> document list" where
  "load_documents_from_folder_with_ocr fs folder_path =
     (if \<not> path_exists fs folder_path then []
      else concat (map (load_one_with_ocr fs) (all_files fs folder_path)))"

text \<open>A folder holding the single file \<open>data/notes.txt\<close>, which cannot be read.\<close>

definition unreadable_txt_fs :: filesystem where
  "unreadable_txt_fs =
     \<lparr>path_exists = (\<lambda>p. True),
      glob = (\<lambda>pat. if pat = ''data/*.txt'' then [''data/notes.txt''] else []),
      load_pdf = (\<lambda>p. []), load_pdf_with_ocr_fallback = (\<lambda>p. []),
      load_docx = (\<lambda>p. Inr []),
      load_txt = (\<lambda>p. Inl (IOError ''Error reading TXT: Permission denied''))\<rparr>"

section \<open>The extraction cache of \<open>document_loader\<close>\<close>

text \<open>
  What \<open>json.load\<close> gives back: \<open>null\<close>, a string, an object (its members in file order; a
  repeated key keeps its last value), or another value (number, boolean, array).
\<close>

datatype json = JNull | JString string | JOther | JObject "(string \<times> json) list"

text \<open>A cache file either fails to open or parse, or parses to a JSON value.\<close>

datatype cache_file = Unreadable | Parsed json

text \<open>
  The disk as the cache sees it: the cache files by path (\<open>None\<close> when \<open>os.path.exists\<close> is
  false) and the bytes of the source files (\<open>None\<close> when the file cannot be opened). The
  \<open>cache\<close> directory itself is taken to exist or to be creatable.
\<close>

record disk =
  cache_files :: "string \<Rightarrow> cache_file option"
  source_bytes :: "string \<Rightarrow> string option"

text \<open>
  \<open>iter(lambda: f.read(4096), b"")\<close>: the successive chunks of at most \<open>n\<close> bytes, up to the
  first empty read.
\<close>

function read_chunks :: "nat \<Rightarrow> string \<Rightarrow> string list" where
  "read_chunks n bs =
     (if n = 0 \<or> bs = [] then [] else take n bs # read_chunks n (drop n bs))"
  by pat_completeness auto
termination
  by (relation "measure (\<lambda>(n, bs). length bs)") auto

declare read_chunks.simps [simp del]

text \<open>
  \<open>get_file_hash\<close>: an MD5 object fed chunk by chunk. The digest function \<open>md5\<close> of
  \<open>hashlib\<close> is a parameter; the state of the hash object is the bytes fed so far.
\<close>

definition get_file_hash :: "(string \<Rightarrow> string) \<Rightarrow> disk \<Rightarrow> string \<Rightarrow> error + string" where
  "get_file_hash md5 dk p =
     (case source_bytes dk p of
        None \<Rightarrow> Inl (IOError ''No such file or directory'')
      | Some bs \<Rightarrow> Inr (md5 (foldl (@) [] (read_chunks 4096 bs))))"

definition get_cache_path :: "string \<Rightarrow> string" where
  "get_cache_path p = path_join ''cache'' (fst (splitext (basename p)) @ ''_ocr_cache.json'')"

text \<open>
  \<open>cache_data.get(key)\<close>: raises on a value that is not an object, gives \<open>None\<close> (here
  \<open>JNull\<close>) for a missing key.
\<close>

definition py_get :: "json \<Rightarrow> string \<Rightarrow> error + json" where
  "py_get v k =
     (case v of
        JObject kvs \<Rightarrow> (case map_of (rev kvs) k of None \<Rightarrow> Inr JNull | Some x \<Rightarrow> Inr x)
      | _ \<Rightarrow> Inl (KeyError ''object has no attribute get''))"

text \<open>
  \<open>load_from_cache\<close>. The result \<open>None\<close> is Python's \<open>None\<close> (a miss); every exception of
  the \<open>try\<close> block ends in the \<open>except\<close> branch, which returns \<open>None\<close>.
\<close>

definition load_from_cache :: "(string \<Rightarrow> string) \<Rightarrow> disk \<Rightarrow> string \<Rightarrow> json option" where
  "load_from_cache md5 dk p =
     (case cache_files dk (get_cache_path p) of
        None \<Rightarrow> None
      | Some Unreadable \<Rightarrow> None
      | Some (Parsed cache_data) \<Rightarrow>
          (case get_file_hash md5 dk p of
             Inl e \<Rightarrow> None
           | Inr current_hash \<Rightarrow>
               (case py_get cache_data ''file_hash'' of
                  Inl e \<Rightarrow> None
                | Inr stored \<Rightarrow>
                    if stored = JString current_hash
                    then (case py_get cache_data ''content'' of
                            Inl e \<Rightarrow> None
                          | Inr JNull \<Rightarrow> None
                          | Inr payload \<Rightarrow> Some payload)
                    else None)))"

text \<open>A toy digest and a disk with one cached entry, for concrete runs.\<close>

definition toy_md5 :: "string \<Rightarrow> string" where
  "toy_md5 bs = ''h'' @ bs"

definition cached_disk :: "string \<Rightarrow> disk" where
  "cached_disk t =
     \<lparr>cache_files = (\<lambda>p. if p = ''cache/doc_ocr_cache.json''
          then Some (Parsed (JObject [(''file_hash'', JString ''hscan''),
                 (''content'', JString ''text''), (''cached_at'', JString t)]))
          else None),
      source_bytes = (\<lambda>p. if p = ''data/doc.pdf'' then Some ''scan'' else None)\<rparr>"

section \<open>The retriever: query analysis\<close>

text \<open>\<open>str.split()\<close>: the maximal runs of non-blank characters.\<close>

fun split_acc :: "string \<Rightarrow> string \<Rightarrow> string list" where
  "split_acc cur [] = (if cur = [] then [] else [cur])"
| "split_acc cur (c # cs) =
     (if is_space c then (if cur = [] then split_acc [] cs else cur # split_acc [] cs)
      else split_acc (cur @ [c]) cs)"

definition split :: "string \<Rightarrow> string list" where
  "split s = split_acc [] s"

text \<open>\<open>' '.join(words)\<close>.\<close>

fun join_spaces :: "string list \<Rightarrow> string" where
  "join_spaces [] = []"
| "join_spaces [w] = w"
| "join_spaces (w # ws) = w @ '' '' @ join_spaces ws"

definition question_words :: "string list" where
  "question_words = [''what'', ''is'', ''are'', ''how'', ''when'', ''where'', ''why'', ''who'',
     ''which'', ''the'', ''a'', ''an'']"

text \<open>
  \<open>extract_key_terms\<close>: \<open>re.sub(r'[^\w\s]', ' ', query_text.lower())\<close>, then \<open>split\<close>, then
  the words that are no question word and have more than two characters, joined by blanks.
\<close>

definition cleaned :: "string \<Rightarrow> string" where
  "cleaned query_text =
     map (\<lambda>c. if is_word_char c \<or> is_space c then c else CHR '' '') (lower query_text)"

definition key_term_list :: "string \<Rightarrow> string list" where
  "key_term_list query_text =
     filter (\<lambda>w. w \<notin> set question_words \<and> length w > 2) (split (cleaned query_text))"

definition extract_key_terms :: "string \<Rightarrow> string" where
  "extract_key_terms query_text = join_spaces (key_term_list query_text)"

text \<open>
  The three date patterns of \<open>_search_with_query\<close>. \<open>year_then_boundary\<close> is \<open>\d{4}\b\<close>:
  four digits followed by the end of the string or a non-word character.
\<close>

definition months :: "string list" where
  "months = [''january'', ''february'', ''march'', ''april'', ''may'', ''june'', ''july'',
     ''august'', ''september'', ''october'', ''november'', ''december'']"

definition year_then_boundary :: "string \<Rightarrow> bool" where
  "year_then_boundary s =
     (4 \<le> length s \<and> list_all is_digit (take 4 s)
      \<and> (case drop 4 s of [] \<Rightarrow> True | c # _ \<Rightarrow> \<not> is_word_char c))"

text \<open>
  \<open>(?:january|...|december)\s+\d{4}\b\<close> at the head of \<open>s\<close>: the length of the match. The
  alternatives are tried in order; \<open>\s+\<close> takes every blank, since a digit must follow.
\<close>

fun match_month_year :: "string list \<Rightarrow> string \<Rightarrow> nat option" where
  "match_month_year [] s = None"
| "match_month_year (m # ms) s =
     (let r = drop (length m) s; sp = takeWhile is_space r in
      if prefix m s \<and> sp \<noteq> [] \<and> year_then_boundary (dropWhile is_space r)
      then Some (length m + length sp + 4) else match_month_year ms s)"

definition is_date_sep :: "char \<Rightarrow> bool" where
  "is_date_sep c = (c = CHR ''/'' \<or> c = CHR ''-'')"

text \<open>\<open>\d{1,2}[/-]\d{4}\b\<close> at the head of the string: two digits are tried before one.\<close>

fun match_day_year :: "string \<Rightarrow> nat option" where
  "match_day_year (a # b # c # r) =
     (if is_digit a \<and> is_digit b \<and> is_date_sep c \<and> year_then_boundary r then Some 7
      else if is_digit a \<and> is_date_sep b \<and> year_then_boundary (c # r) then Some 6
      else None)"
| "match_day_year _ = None"

text \<open>\<open>\d{4}[/-]\d{1,2}\b\<close> at the head of the string.\<close>

definition match_year_day :: "string \<Rightarrow> nat option" where
  "match_year_day s =
     (if 6 \<le> length s \<and> list_all is_digit (take 4 s) \<and> is_date_sep (s ! 4) \<and> is_digit (s ! 5)
      then (if 7 \<le> length s \<and> is_digit (s ! 6) \<and> (length s = 7 \<or> \<not> is_word_char (s ! 7))
            then Some 7
            else if length s = 6 \<or> \<not> is_word_char (s ! 6) then Some 6 else None)
      else None)"

text \<open>
  \<open>re.findall\<close> for a pattern that begins with \<open>\b\<close> and a word character: scan from the
  left; a match may start only where the previous character is no word character; after a
  match the scan resumes behind it (\<open>skip\<close> counts the characters still inside the match).
\<close>

fun findall :: "(string \<Rightarrow> nat option) \<Rightarrow> nat \<Rightarrow> bool \<Rightarrow> string \<Rightarrow> string list" where
  "findall m skip prev_word [] = []"
| "findall m skip prev_word (c # cs) =
     (if 0 < skip then findall m (skip - 1) (is_word_char c) cs
      else case (if prev_word then None else m (c # cs)) of
             Some n \<Rightarrow> take n (c # cs) # findall m (n - 1) (is_word_char c) cs
           | None \<Rightarrow> findall m 0 (is_word_char c) cs)"

definition date_patterns :: "string \<Rightarrow> string list" where
  "date_patterns query_lower =
     findall (match_month_year months) 0 False query_lower
     @ findall match_day_year 0 False query_lower
     @ findall match_year_day 0 False query_lower"

definition search_terms :: "string \<Rightarrow> string list" where
  "search_terms query = lower query # date_patterns (lower query)"

section \<open>The retriever: one search round\<close>

datatype match_kind = Exact | Tfidf | Hybrid

text \<open>A result is a copy of a document with the two keys the retriever adds.\<close>

record scored =
  doc :: document
  similarity_score :: real
  match_type :: match_kind

text \<open>
  The libraries are parameters: \<open>fit_transform\<close> and \<open>transform_cosine\<close> stand for
  scikit-learn (\<open>TfidfVectorizer.fit_transform\<close>; \<open>transform\<close> followed by
  \<open>cosine_similarity(...).flatten()\<close>), \<open>argsort\<close> for \<open>numpy.argsort\<close>, \<open>md5_hex\<close> for
  \<open>hashlib\<close> and \<open>pickled_index\<close> for the pickled index files by cache key. The vectorizer
  and the matrix of document vectors are values of the abstract types \<open>'v\<close> and \<open>'m\<close>.
\<close>

record ('v, 'm) engine =
  fresh_vectorizer :: 'v
  fit_transform :: "'v \<Rightarrow> string list \<Rightarrow> error + ('v \<times> 'm)"
  transform_cosine :: "'v \<Rightarrow> 'm \<Rightarrow> string \<Rightarrow> error + real list"
  argsort :: "real list \<Rightarrow> nat list"
  md5_hex :: "string \<Rightarrow> string"
  pickled_index :: "string \<Rightarrow> ('v \<times> 'm) option"

record ('v, 'm) retriever =
  documents :: "document list"
  use_cache :: bool
  vectorizer :: 'v
  doc_vectors :: "'m option"

definition content_or_empty :: "document \<Rightarrow> string" where
  "content_or_empty d = (case content d of None \<Rightarrow> [] | Some c \<Rightarrow> c)"

definition get_cache_key :: "('v, 'm) engine \<Rightarrow> document list \<Rightarrow> string" where
  "get_cache_key eng docs = take 12 (md5_hex eng (foldl (@) [] (map content_or_empty docs)))"

text \<open>\<open>build_index\<close>; an exception of \<open>fit_transform\<close> leaves the method.\<close>

definition build_index ::
    "('v, 'm) engine \<Rightarrow> ('v, 'm) retriever \<Rightarrow> error + ('v, 'm) retriever" where
  "build_index eng st =
     (if documents st = [] then Inr st
      else case (if use_cache st then pickled_index eng (get_cache_key eng (documents st))
                 else None) of
             Some (v, m) \<Rightarrow> Inr (st\<lparr>vectorizer := v, doc_vectors := Some m\<rparr>)
           | None \<Rightarrow>
               (case fit_transform eng (vectorizer st) (map content_or_empty (documents st)) of
                  Inl e \<Rightarrow> Inl e
                | Inr (v, m) \<Rightarrow> Inr (st\<lparr>vectorizer := v, doc_vectors := Some m\<rparr>)))"

text \<open>\<open>SimpleRetriever(documents, use_cache)\<close>.\<close>

definition new_retriever ::
    "('v, 'm) engine \<Rightarrow> document list \<Rightarrow> bool \<Rightarrow> error + ('v, 'm) retriever" where
  "new_retriever eng docs cache =
     build_index eng \<lparr>documents = docs, use_cache = cache,
       vectorizer = fresh_vectorizer eng, doc_vectors = None\<rparr>"

text \<open>Python's \<open>xs[:k]\<close> for an integer \<open>k\<close>, negative ones included.\<close>

definition py_take :: "int \<Rightarrow> 'a list \<Rightarrow> 'a list" where
  "py_take k xs = (if 0 \<le> k then take (nat k) xs else take (length xs - nat (- k)) xs)"

definition term_score :: "string \<Rightarrow> real" where
  "term_score t = min 1 (real (length t) / 20 + 1 / 2)"

text \<open>The inner loop over the search terms: \<open>(max_score, match_found)\<close>.\<close>

fun scan_terms :: "string \<Rightarrow> string list \<Rightarrow> real \<times> bool \<Rightarrow> real \<times> bool" where
  "scan_terms content_lower [] acc = acc"
| "scan_terms content_lower (t # ts) (max_score, match_found) =
     (if sublist t content_lower
      then scan_terms content_lower ts (max max_score (term_score t), True)
      else scan_terms content_lower ts (max_score, match_found))"

definition exact_match :: "string list \<Rightarrow> document \<Rightarrow> scored list" where
  "exact_match terms d =
     (case scan_terms (lower (content_or_empty d)) terms (0, False) of
        (max_score, match_found) \<Rightarrow>
          if match_found
          then [\<lparr>doc = d, similarity_score = max_score, match_type = Exact\<rparr>] else [])"

definition exact_matches :: "document list \<Rightarrow> string \<Rightarrow> scored list" where
  "exact_matches docs query = concat (map (exact_match (search_terms query)) docs)"

text \<open>
  The loop over \<open>top_indices\<close>; \<open>similarities[idx]\<close> and \<open>self.documents[idx]\<close> raise when the
  index is out of range.
\<close>

fun tfidf_matches :: "document list \<Rightarrow> real list \<Rightarrow> nat list \<Rightarrow> error + scored list" where
  "tfidf_matches docs sims [] = Inr []"
| "tfidf_matches docs sims (idx # rest) =
     (if length sims \<le> idx then Inl IndexError
      else if sims ! idx > 5 / 100
      then (if length docs \<le> idx then Inl IndexError
            else case tfidf_matches docs sims rest of
                   Inl e \<Rightarrow> Inl e
                 | Inr ms \<Rightarrow> Inr (\<lparr>doc = docs ! idx, similarity_score = sims ! idx,
                                   match_type = Tfidf\<rparr> # ms))
      else tfidf_matches docs sims rest)"

text \<open>
  \<open>all_matches\<close> is a Python dictionary: its items in insertion order; assigning to a key
  that is present keeps the position of the key.
\<close>

fun dict_set :: "(string \<times> 'a) list \<Rightarrow> string \<Rightarrow> 'a \<Rightarrow> (string \<times> 'a) list" where
  "dict_set [] k v = [(k, v)]"
| "dict_set ((k', v') # m) k v = (if k' = k then (k, v) # m else (k', v') # dict_set m k v)"

fun add_exact :: "scored list \<Rightarrow> (string \<times> scored) list \<Rightarrow> error + (string \<times> scored) list" where
  "add_exact [] m = Inr m"
| "add_exact (d # ds) m =
     (case file_name (doc d) of
        None \<Rightarrow> Inl (KeyError ''file_name'')
      | Some name \<Rightarrow> add_exact ds (dict_set m name d))"

fun add_tfidf :: "scored list \<Rightarrow> (string \<times> scored) list \<Rightarrow> error + (string \<times> scored) list" where
  "add_tfidf [] m = Inr m"
| "add_tfidf (d # ds) m =
     (case file_name (doc d) of
        None \<Rightarrow> Inl (KeyError ''file_name'')
      | Some name \<Rightarrow>
          (case map_of m name of
             None \<Rightarrow> add_tfidf ds (dict_set m name d)
           | Some e \<Rightarrow>
               if similarity_score e < similarity_score d
               then add_tfidf ds (dict_set m name
                      (e\<lparr>similarity_score := max (similarity_score e) (similarity_score d),
                         match_type := Hybrid\<rparr>))
               else add_tfidf ds m))"

text \<open>\<open>xs.sort(key=score, reverse=True)\<close>: stable, by descending score.\<close>

definition sort_by_score :: "scored list \<Rightarrow> scored list" where
  "sort_by_score xs = sort_key (\<lambda>d. - similarity_score d) xs"

definition top_indices :: "('v, 'm) engine \<Rightarrow> nat \<Rightarrow> real list \<Rightarrow> int \<Rightarrow> nat list" where
  "top_indices eng num_docs sims top_k =
     py_take (min top_k (int num_docs)) (rev (argsort eng sims))"

text \<open>
  The \<open>try\<close> block of \<open>_search_with_query\<close>, in three steps: the TF-IDF matches, the
  dictionary \<open>all_matches\<close>, and the sorted, truncated list of its values.
\<close>

definition vector_matches ::
    "('v, 'm) engine \<Rightarrow> ('v, 'm) retriever \<Rightarrow> string \<Rightarrow> int \<Rightarrow> error + scored list" where
  "vector_matches eng st query top_k =
     (case doc_vectors st of
        None \<Rightarrow> Inl (TransformError ''no document vectors'')
      | Some m \<Rightarrow>
          (case transform_cosine eng (vectorizer st) m query of
             Inl e \<Rightarrow> Inl e
           | Inr sims \<Rightarrow>
               tfidf_matches (documents st) sims
                 (top_indices eng (length (documents st)) sims top_k)))"

definition merged_matches ::
    "('v, 'm) engine \<Rightarrow> ('v, 'm) retriever \<Rightarrow> string \<Rightarrow> int
       \<Rightarrow> error + (string \<times> scored) list" where
  "merged_matches eng st query top_k =
     (case vector_matches eng st query top_k of
        Inl e \<Rightarrow> Inl e
      | Inr tfidf \<Rightarrow>
          (case add_exact (exact_matches (documents st) query) [] of
             Inl e \<Rightarrow> Inl e
           | Inr m1 \<Rightarrow> add_tfidf tfidf m1))"

definition search_body ::
    "('v, 'm) engine \<Rightarrow> ('v, 'm) retriever \<Rightarrow> string \<Rightarrow> int \<Rightarrow> error + scored list" where
  "search_body eng st query top_k =
     (case merged_matches eng st query top_k of
        Inl e \<Rightarrow> Inl e
      | Inr all_matches \<Rightarrow> Inr (py_take top_k (sort_by_score (map snd all_matches))))"

text \<open>\<open>_search_with_query\<close>: its \<open>except Exception\<close> branch returns the empty list.\<close>

definition search_with_query ::
    "('v, 'm) engine \<Rightarrow> ('v, 'm) retriever \<Rightarrow> string \<Rightarrow> int \<Rightarrow> error + scored list" where
  "search_with_query eng st query top_k =
     (case search_body eng st query top_k of Inl e \<Rightarrow> Inr [] | Inr r \<Rightarrow> Inr r)"

section \<open>The retriever: fallback rounds\<close>

text \<open>Strategy 3: the words longer than four characters, one by one, up to the first hit.\<close>

fun try_words ::
    "('v, 'm) engine \<Rightarrow> ('v, 'm) retriever \<Rightarrow> int \<Rightarrow> string list \<Rightarrow> error + scored list" where
  "try_words eng st top_k [] = Inr []"
| "try_words eng st top_k (w # ws) =
     (if 4 < length w
      then (case search_with_query eng st w top_k of
              Inl e \<Rightarrow> Inl e
            | Inr word_results \<Rightarrow>
                if word_results \<noteq> [] then Inr word_results else try_words eng st top_k ws)
      else try_words eng st top_k ws)"

text \<open>The duplicate filter, keyed by file name and the first 100 characters of the content.\<close>

fun dedup :: "(string \<times> string) set \<Rightarrow> scored list \<Rightarrow> error + scored list" where
  "dedup seen [] = Inr []"
| "dedup seen (d # ds) =
     (case file_name (doc d) of
        None \<Rightarrow> Inl (KeyError ''file_name'')
      | Some name \<Rightarrow>
          (let doc_id = (name, take 100 (content_or_empty (doc d))) in
           if doc_id \<in> seen then dedup seen ds
           else case dedup (insert doc_id seen) ds of
                  Inl e \<Rightarrow> Inl e
                | Inr us \<Rightarrow> Inr (d # us)))"

text \<open>The \<open>try\<close> block of \<open>retrieve_relevant_chunks\<close>.\<close>

definition strategy2 ::
    "('v, 'm) engine \<Rightarrow> ('v, 'm) retriever \<Rightarrow> string \<Rightarrow> int \<Rightarrow> error + scored list" where
  "strategy2 eng st query top_k =
     (let key_terms = extract_key_terms query in
      if key_terms \<noteq> [] \<and> key_terms \<noteq> lower query
      then search_with_query eng st key_terms top_k else Inr [])"

definition retrieve_body ::
    "('v, 'm) engine \<Rightarrow> ('v, 'm) retriever \<Rightarrow> string \<Rightarrow> int \<Rightarrow> error + scored list" where
  "retrieve_body eng st query top_k =
     (case search_with_query eng st query top_k of
        Inl e \<Rightarrow> Inl e
      | Inr results1 \<Rightarrow>
     (case (if results1 = [] then strategy2 eng st query top_k else Inr []) of
        Inl e \<Rightarrow> Inl e
      | Inr results2 \<Rightarrow>
     (case (if results1 @ results2 = []
            then try_words eng st top_k (split (extract_key_terms query)) else Inr []) of
        Inl e \<Rightarrow> Inl e
      | Inr results3 \<Rightarrow>
     (case dedup {} (results1 @ results2 @ results3) of
        Inl e \<Rightarrow> Inl e
      | Inr unique_results \<Rightarrow> Inr (py_take top_k (sort_by_score unique_results))))))"

text \<open>\<open>retrieve_relevant_chunks\<close>: the guard, then the \<open>try\<close> block with its \<open>except\<close>.\<close>

definition retrieve_relevant_chunks ::
    "('v, 'm) engine \<Rightarrow> ('v, 'm) retriever \<Rightarrow> string \<Rightarrow> int \<Rightarrow> error + scored list" where
  "retrieve_relevant_chunks eng st query top_k =
     (if doc_vectors st = None \<or> documents st = [] then Inr []
      else case retrieve_body eng st query top_k of Inl e \<Rightarrow> Inr [] | Inr r \<Rightarrow> Inr r)"

section \<open>Concrete engines and corpora\<close>

text \<open>
  An \<open>argsort\<close> that keeps equal values in index order, as \<open>numpy\<close> does for
  \<open>kind='stable'\<close>; the default kind, which the retriever uses, promises no order among equal
  values, so no property below relies on the order this one gives them. Then an engine that
  answers every query from a table of similarity vectors, and the three sample documents of
  \<open>retriever.py\<close>.
\<close>

definition stable_argsort :: "real list \<Rightarrow> nat list" where
  "stable_argsort sims = sort_key (\<lambda>i. sims ! i) [0..<length sims]"

definition fixed_engine :: "(string \<Rightarrow> error + real list) \<Rightarrow> (unit, unit) engine" where
  "fixed_engine sims_of =
     \<lparr>fresh_vectorizer = (), fit_transform = (\<lambda>v cs. Inr ((), ())),
      transform_cosine = (\<lambda>v m q. sims_of q), argsort = stable_argsort,
      md5_hex = toy_md5, pickled_index = (\<lambda>k. None)\<rparr>"

definition text_doc :: "string \<Rightarrow> string \<Rightarrow> document" where
  "text_doc name c =
     \<lparr>file_name = Some name, file_path = ''data/'' @ name, content = Some c,
      file_type = ''.txt''\<rparr>"

definition sample_docs :: "document list" where
  "sample_docs =
     [text_doc ''doc1.txt'' ''Python is a programming language used for web development.'',
      text_doc ''doc2.txt'' ''Machine learning is a subset of artificial intelligence.'',
      text_doc ''doc3.txt'' ''Web development involves creating websites and web applications.'']"

definition built :: "document list \<Rightarrow> (unit, unit) retriever" where
  "built docs = \<lparr>documents = docs, use_cache = False, vectorizer = (), doc_vectors = Some ()\<rparr>"

definition hit :: "document \<Rightarrow> real \<Rightarrow> match_kind \<Rightarrow> scored" where
  "hit d s k = \<lparr>doc = d, similarity_score = s, match_type = k\<rparr>"

text \<open>An engine whose vectorizer raises on every query.\<close>

definition failing_engine :: "(unit, unit) engine" where
  "failing_engine = fixed_engine (\<lambda>q. Inl (TransformError ''not fitted''))"

text \<open>
  A query of stop-words and short tokens only: every word left by the cleaning of
  \<open>extract_key_terms\<close> is a question word or has at most two characters.
\<close>

definition only_stop_words :: "string \<Rightarrow> bool" where
  "only_stop_words query =
     (\<forall>w \<in> set (split (cleaned query)). w \<in> set question_words \<or> length w \<le> 2)"

text \<open>An engine for three documents whose cosine scores are all zero.\<close>

definition zero_engine :: "(unit, unit) engine" where
  "zero_engine = fixed_engine (\<lambda>q. Inr [0, 0, 0])"

section \<open>Notions used by the properties of the retriever\<close>

text \<open>
  The file name of a result whose document has one, and the shape of \<open>all_matches\<close>: a
  dictionary whose keys are pairwise distinct and are the file names of their values.
\<close>

definition name_of :: "scored \<Rightarrow> string" where
  "name_of e = the (file_name (doc e))"

definition keyed :: "(string \<times> scored) list \<Rightarrow> bool" where
  "keyed m = (distinct (map fst m) \<and> (\<forall>(k, v) \<in> set m. file_name (doc v) = Some k))"



text \<open>
  An engine whose cosine scores for the three sample documents are 0.44, 0 and 0, about what
  TF-IDF gives the query \<open>python\<close> on them.
\<close>

definition python_engine :: "(unit, unit) engine" where
  "python_engine = fixed_engine (\<lambda>q. Inr [11 / 25, 0, 0])"

text \<open>
  Two short documents, the first of which is the single word of the query \<open>python\<close>, so
  that its cosine score is 1.
\<close>

definition short_docs :: "document list" where
  "short_docs = [text_doc ''lang.txt'' ''Python'', text_doc ''web.txt'' ''Web development'']"

definition short_engine :: "(unit, unit) engine" where
  "short_engine = fixed_engine (\<lambda>q. Inr [1, 0])"












section \<open>Properties of the loaders\<close>

lemma code_of_simps [simp]: "code_of (Char b0 b1 b2 b3 b4 b5 b6 b7) =
    of_bool b0 + 2 * (of_bool b1 + 2 * (of_bool b2 + 2 * (of_bool b3 + 2 * (of_bool b4
      + 2 * (of_bool b5 + 2 * (of_bool b6 + 2 * of_bool b7))))))"
  by (simp add: code_of_def horner_sum_eq_sum)

lemma length_load_one_with_ocr: "length (load_one_with_ocr fs p) = 1"
  by (simp add: load_one_with_ocr_def split: sum.split)

lemma length_concat_singletons:
  "(\<And>x. length (f x) = 1) \<Longrightarrow> length (concat (map f xs)) = length xs"
  by (induction xs) simp_all

lemma load_with_ocr_complete:
  "path_exists fs d \<Longrightarrow>
   length (load_documents_from_folder_with_ocr fs d) = length (all_files fs d)"
  by (simp add: load_documents_from_folder_with_ocr_def length_concat_singletons
      length_load_one_with_ocr)

text \<open>
  C1. Load completeness asks for one document per discovered file. The folder of
  \<open>unreadable_txt_fs\<close> has one discoverable file, and \<open>load_documents_from_folder\<close> returns
  no document for it, while \<open>load_documents_from_folder_with_ocr\<close> returns its error
  document.
\<close>

theorem load_documents_from_folder_drops_failed_file:
  "length (all_files unreadable_txt_fs ''data/'') = 1
   \<and> load_documents_from_folder unreadable_txt_fs ''data/'' = []
   \<and> length (load_documents_from_folder_with_ocr unreadable_txt_fs ''data/'') = 1"
  by (simp add: all_files_def file_patterns_def path_join_def unreadable_txt_fs_def
      load_documents_from_folder_def load_one_def extract_content_def file_ext_of_def splitext_def
      lower_def lower_char_def Let_def
      load_documents_from_folder_with_ocr_def load_one_with_ocr_def extract_with_ocr_def)

text \<open>
  C10. For a folder path that does not exist, both loaders return the empty list; neither
  has a path that raises.
\<close>

theorem missing_folder_loads_nothing:
  "\<not> path_exists fs d \<Longrightarrow>
   load_documents_from_folder fs d = [] \<and> load_documents_from_folder_with_ocr fs d = []"
  by (simp add: load_documents_from_folder_def load_documents_from_folder_with_ocr_def)

theorem missing_folder_loads_nothing_witness:
  "\<not> path_exists (unreadable_txt_fs\<lparr>path_exists := (\<lambda>p. False)\<rparr>) ''data/''
   \<and> load_documents_from_folder (unreadable_txt_fs\<lparr>path_exists := (\<lambda>p. False)\<rparr>) ''data/'' = []
   \<and> load_documents_from_folder_with_ocr (unreadable_txt_fs\<lparr>path_exists := (\<lambda>p. False)\<rparr>) ''data/'' = []"
  using missing_folder_loads_nothing [of "unreadable_txt_fs\<lparr>path_exists := (\<lambda>p. False)\<rparr>" "''data/''"]
  by simp


section \<open>Properties of the extraction cache\<close>

lemma foldl_append_concat: "foldl (@) a xs = a @ concat xs"
  by (induction xs arbitrary: a) simp_all

lemma concat_read_chunks: "0 < n \<Longrightarrow> concat (read_chunks n bs) = bs"
proof (induction n bs rule: read_chunks.induct)
  case (1 n bs)
  show ?case
  proof (cases "bs = []")
    case True
    then show ?thesis by (subst read_chunks.simps) simp
  next
    case False
    with "1" have "concat (read_chunks n (drop n bs)) = drop n bs" by simp
    with False "1.prems" show ?thesis by (subst read_chunks.simps) simp
  qed
qed

text \<open>Feeding the file in chunks of 4096 bytes hashes the whole byte sequence.\<close>

lemma get_file_hash_bytes:
  "get_file_hash md5 dk p =
     (case source_bytes dk p of None \<Rightarrow> Inl (IOError ''No such file or directory'')
      | Some bs \<Rightarrow> Inr (md5 bs))"
  by (simp add: get_file_hash_def foldl_append_concat concat_read_chunks split: option.split)

lemma load_from_cache_hit_iff:
  "load_from_cache md5 dk p = Some payload \<longleftrightarrow>
     payload \<noteq> JNull \<and>
     (\<exists>cache_data bs. cache_files dk (get_cache_path p) = Some (Parsed cache_data)
        \<and> source_bytes dk p = Some bs
        \<and> py_get cache_data ''file_hash'' = Inr (JString (md5 bs))
        \<and> py_get cache_data ''content'' = Inr payload)"
  by (auto simp: load_from_cache_def get_file_hash_bytes
      split: option.splits cache_file.splits sum.splits json.splits if_splits)

lemma load_from_cache_ignores_cached_at:
  assumes "\<forall>k. k \<noteq> ''cached_at'' \<longrightarrow> py_get d k = py_get d' k"
  shows "load_from_cache md5 (dk\<lparr>cache_files := (cache_files dk)(get_cache_path p := Some (Parsed d))\<rparr>) p
       = load_from_cache md5 (dk\<lparr>cache_files := (cache_files dk)(get_cache_path p := Some (Parsed d'))\<rparr>) p"
proof -
  have "py_get d ''file_hash'' = py_get d' ''file_hash''" "py_get d ''content'' = py_get d' ''content''"
    using assms by simp_all
  then show ?thesis
    by (simp add: load_from_cache_def get_file_hash_bytes split: option.split sum.split)
qed

text \<open>
  C2. \<open>load_from_cache\<close> returns a payload or \<open>None\<close> (the miss). It returns a payload
  exactly when the cache file exists, parses to an object, the source file can be read, and the
  stored \<open>file_hash\<close> equals the MD5 digest of the current bytes; the payload is then the
  stored \<open>content\<close>. A missing or unreadable entry and a differing fingerprint give a miss,
  and the \<open>cached_at\<close> timestamp of the entry has no influence on the result.
\<close>

theorem load_from_cache_fingerprint_only:
  "(load_from_cache md5 dk p = Some payload \<longleftrightarrow>
      payload \<noteq> JNull \<and>
      (\<exists>cache_data bs. cache_files dk (get_cache_path p) = Some (Parsed cache_data)
         \<and> source_bytes dk p = Some bs
         \<and> py_get cache_data ''file_hash'' = Inr (JString (md5 bs))
         \<and> py_get cache_data ''content'' = Inr payload))
   \<and> (cache_files dk (get_cache_path p) = None \<longrightarrow> load_from_cache md5 dk p = None)
   \<and> (cache_files dk (get_cache_path p) = Some Unreadable \<longrightarrow> load_from_cache md5 dk p = None)
   \<and> (\<forall>d bs. cache_files dk (get_cache_path p) = Some (Parsed d) \<and> source_bytes dk p = Some bs
         \<and> py_get d ''file_hash'' \<noteq> Inr (JString (md5 bs)) \<longrightarrow> load_from_cache md5 dk p = None)
   \<and> (\<forall>d d'. (\<forall>k. k \<noteq> ''cached_at'' \<longrightarrow> py_get d k = py_get d' k) \<longrightarrow>
         load_from_cache md5 (dk\<lparr>cache_files := (cache_files dk)(get_cache_path p := Some (Parsed d))\<rparr>) p
       = load_from_cache md5 (dk\<lparr>cache_files := (cache_files dk)(get_cache_path p := Some (Parsed d'))\<rparr>) p)"
proof (intro conjI allI impI)
  show "load_from_cache md5 dk p = Some payload \<longleftrightarrow>
      payload \<noteq> JNull \<and>
      (\<exists>cache_data bs. cache_files dk (get_cache_path p) = Some (Parsed cache_data)
         \<and> source_bytes dk p = Some bs
         \<and> py_get cache_data ''file_hash'' = Inr (JString (md5 bs))
         \<and> py_get cache_data ''content'' = Inr payload)"
    by (rule load_from_cache_hit_iff)
next
  assume "cache_files dk (get_cache_path p) = None"
  then show "load_from_cache md5 dk p = None" by (simp add: load_from_cache_def)
next
  assume "cache_files dk (get_cache_path p) = Some Unreadable"
  then show "load_from_cache md5 dk p = None" by (simp add: load_from_cache_def)
next
  fix d bs
  assume "cache_files dk (get_cache_path p) = Some (Parsed d) \<and> source_bytes dk p = Some bs
         \<and> py_get d ''file_hash'' \<noteq> Inr (JString (md5 bs))"
  then show "load_from_cache md5 dk p = None"
    by (auto simp: load_from_cache_def get_file_hash_bytes split: sum.splits)
next
  fix d d' :: json
  assume "\<forall>k. k \<noteq> ''cached_at'' \<longrightarrow> py_get d k = py_get d' k"
  then show "load_from_cache md5 (dk\<lparr>cache_files := (cache_files dk)(get_cache_path p := Some (Parsed d))\<rparr>) p
       = load_from_cache md5 (dk\<lparr>cache_files := (cache_files dk)(get_cache_path p := Some (Parsed d'))\<rparr>) p"
    by (rule load_from_cache_ignores_cached_at)
qed

lemma get_cache_path_doc: "get_cache_path ''data/doc.pdf'' = ''cache/doc_ocr_cache.json''"
  by (simp add: get_cache_path_def path_join_def splitext_def)

text \<open>
  Unchanged bytes give the cached text; changed bytes give a miss, whatever the timestamp.
\<close>

theorem load_from_cache_fingerprint_only_witness:
  "load_from_cache toy_md5 (cached_disk ''1.5'') ''data/doc.pdf'' = Some (JString ''text'')
   \<and> load_from_cache toy_md5 ((cached_disk ''1.5'')\<lparr>source_bytes := (\<lambda>p. Some ''edit'')\<rparr>)
        ''data/doc.pdf'' = None"
proof
  have "JString ''text'' \<noteq> JNull \<and>
      (\<exists>cache_data bs. cache_files (cached_disk ''1.5'') (get_cache_path ''data/doc.pdf'') = Some (Parsed cache_data)
         \<and> source_bytes (cached_disk ''1.5'') ''data/doc.pdf'' = Some bs
         \<and> py_get cache_data ''file_hash'' = Inr (JString (toy_md5 bs))
         \<and> py_get cache_data ''content'' = Inr (JString ''text''))"
    by (simp add: get_cache_path_doc cached_disk_def py_get_def toy_md5_def)
  then show "load_from_cache toy_md5 (cached_disk ''1.5'') ''data/doc.pdf'' = Some (JString ''text'')"
    using load_from_cache_fingerprint_only
      [of toy_md5 "cached_disk ''1.5''" "''data/doc.pdf''" "JString ''text''"]
    by blast
next
  let ?dk = "(cached_disk ''1.5'')\<lparr>source_bytes := (\<lambda>p. Some ''edit'')\<rparr>"
  let ?d = "JObject [(''file_hash'', JString ''hscan''),
                 (''content'', JString ''text''), (''cached_at'', JString ''1.5'')]"
  have "cache_files ?dk (get_cache_path ''data/doc.pdf'') = Some (Parsed ?d)
      \<and> source_bytes ?dk ''data/doc.pdf'' = Some ''edit''
      \<and> py_get ?d ''file_hash'' \<noteq> Inr (JString (toy_md5 ''edit''))"
    by (simp add: get_cache_path_doc cached_disk_def py_get_def toy_md5_def)
  then show "load_from_cache toy_md5 ?dk ''data/doc.pdf'' = None"
    using load_from_cache_fingerprint_only [of toy_md5 ?dk "''data/doc.pdf''" "JString ''text''"]
    by blast
qed

section \<open>Properties of the retriever: failures\<close>

lemma search_with_query_total: "\<exists>r. search_with_query eng st q k = Inr r"
  by (simp add: search_with_query_def split: sum.split)

lemma new_retriever_empty:
  "new_retriever eng [] c = Inr \<lparr>documents = [], use_cache = c,
       vectorizer = fresh_vectorizer eng, doc_vectors = None\<rparr>"
  by (simp add: new_retriever_def build_index_def)

text \<open>
  C6. \<open>retrieve_relevant_chunks\<close> returns a list on every path: the empty list when there are
  no document vectors or no documents (as after constructing the retriever on an empty
  corpus), the empty list when its \<open>try\<close> block raises, and an exception inside one search
  round makes that round return the empty list.
\<close>

theorem retrieve_never_raises:
  "(\<exists>r. retrieve_relevant_chunks eng st query top_k = Inr r)
   \<and> (doc_vectors st = None \<or> documents st = [] \<longrightarrow>
        retrieve_relevant_chunks eng st query top_k = Inr [])
   \<and> (\<forall>e. retrieve_body eng st query top_k = Inl e \<longrightarrow>
        retrieve_relevant_chunks eng st query top_k = Inr [])
   \<and> (\<forall>e. search_body eng st query top_k = Inl e \<longrightarrow>
        search_with_query eng st query top_k = Inr [])
   \<and> (\<exists>st0. new_retriever eng [] c = Inr st0
        \<and> retrieve_relevant_chunks eng st0 query top_k = Inr [])"
  by (auto simp: retrieve_relevant_chunks_def search_with_query_def new_retriever_empty
      split: sum.split)

theorem retrieve_never_raises_witness:
  "search_body failing_engine (built sample_docs) ''python'' 3 = Inl (TransformError ''not fitted'')
   \<and> search_with_query failing_engine (built sample_docs) ''python'' 3 = Inr []
   \<and> retrieve_relevant_chunks failing_engine (built []) ''python'' 3 = Inr []"
proof -
  have b: "search_body failing_engine (built sample_docs) ''python'' 3
      = Inl (TransformError ''not fitted'')"
    by (simp add: search_body_def merged_matches_def vector_matches_def failing_engine_def
        fixed_engine_def built_def)
  have d: "documents (built []) = []" by (simp add: built_def)
  show ?thesis
    using b d retrieve_never_raises [of failing_engine "built sample_docs" "''python''" 3]
      retrieve_never_raises [of failing_engine "built []" "''python''" 3]
    by blast
qed

section \<open>Properties of the retriever: stop-word queries\<close>

lemma only_stop_words_iff: "only_stop_words q \<longleftrightarrow> key_term_list q = []"
  by (auto simp: only_stop_words_def key_term_list_def filter_empty_conv not_less)

lemma scan_terms_no_match:
  "\<forall>t \<in> set ts. \<not> sublist t c \<Longrightarrow> scan_terms c ts acc = acc"
proof (induction ts arbitrary: acc)
  case Nil
  then show ?case by simp
next
  case (Cons t ts)
  then show ?case by (cases acc) simp
qed

lemma exact_matches_none:
  assumes "\<forall>d \<in> set docs. \<forall>t \<in> set (search_terms q). \<not> sublist t (lower (content_or_empty d))"
  shows "exact_matches docs q = []"
  using assms by (simp add: exact_matches_def exact_match_def scan_terms_no_match)

lemma tfidf_matches_low:
  "\<forall>s \<in> set sims. s \<le> 5 / 100 \<Longrightarrow>
   tfidf_matches docs sims idxs = Inr [] \<or> tfidf_matches docs sims idxs = Inl IndexError"
proof (induction idxs)
  case Nil
  then show ?case by simp
next
  case (Cons idx idxs)
  have "idx < length sims \<Longrightarrow> \<not> sims ! idx > 5 / 100"
    using Cons.prems nth_mem [of idx sims] by fastforce
  with Cons show ?case by auto
qed

lemma py_take_Nil [simp]: "py_take k [] = []"
  by (simp add: py_take_def)

lemma sort_by_score_Nil [simp]: "sort_by_score [] = []"
  by (simp add: sort_by_score_def)

lemma split_Nil [simp]: "split [] = []"
  by (simp add: split_def)

text \<open>A round finds nothing when no document contains a search term and no score passes 0.05.\<close>

lemma search_nothing:
  assumes "\<forall>d \<in> set (documents st). \<forall>t \<in> set (search_terms q).
             \<not> sublist t (lower (content_or_empty d))"
    and "\<forall>m sims. doc_vectors st = Some m \<longrightarrow> transform_cosine eng (vectorizer st) m q = Inr sims
           \<longrightarrow> (\<forall>s \<in> set sims. s \<le> 5 / 100)"
  shows "search_with_query eng st q k = Inr []"
proof (cases "search_body eng st q k")
  case (Inl e)
  then show ?thesis by (simp add: search_with_query_def)
next
  case (Inr r)
  then obtain tf where v: "vector_matches eng st q k = Inr tf"
    by (auto simp: search_body_def merged_matches_def split: sum.splits)
  then obtain m sims where m: "doc_vectors st = Some m"
    and s: "transform_cosine eng (vectorizer st) m q = Inr sims"
    and t: "tfidf_matches (documents st) sims (top_indices eng (length (documents st)) sims k) = Inr tf"
    by (auto simp: vector_matches_def split: option.splits sum.splits)
  from assms(2) m s have "\<forall>s \<in> set sims. s \<le> 5 / 100" by blast
  from tfidf_matches_low [OF this, of "documents st" "top_indices eng (length (documents st)) sims k"] t
  have "tf = []" by auto
  with Inr v exact_matches_none [OF assms(1)] have "r = []"
    by (simp add: search_body_def merged_matches_def)
  with Inr show ?thesis by (simp add: search_with_query_def)
qed

text \<open>Without key terms the second and third strategies run no search.\<close>

lemma retrieve_no_key_terms:
  assumes "key_term_list q = []" and "search_with_query eng st q k = Inr []"
  shows "retrieve_relevant_chunks eng st q k = Inr []"
  using assms
  by (simp add: retrieve_relevant_chunks_def retrieve_body_def strategy2_def extract_key_terms_def)

text \<open>
  C7, as the claim states it, fails: the query \<open>is a\<close> consists of stop-words only, and it is a
  substring of two of the sample documents, which the first round returns as exact matches.
\<close>

theorem stop_word_query_exact_match_counterexample:
  "only_stop_words ''is a'' \<and> documents (built sample_docs) \<noteq> []
   \<and> retrieve_relevant_chunks zero_engine (built sample_docs) ''is a'' 3
     = Inr [hit (sample_docs ! 0) (7 / 10) Exact, hit (sample_docs ! 1) (7 / 10) Exact]"
  by code_simp

text \<open>
  C7, amended. For an ASCII query of stop-words and short tokens only over documents with
  ASCII contents, when no document contains the lowercased query (or a date pattern of it) as
  a substring and no cosine score of the query exceeds 0.05, \<open>retrieve_relevant_chunks\<close>
  returns the empty list and raises nothing: the first round finds nothing, and the second and
  third strategies have no term to search.
\<close>

theorem stop_words_without_match_return_nothing:
  assumes "is_ascii query"
    and "\<forall>d \<in> set (documents st). is_ascii (content_or_empty d)"
    and "only_stop_words query"
    and "\<forall>d \<in> set (documents st). \<forall>t \<in> set (search_terms query).
           \<not> sublist t (lower (content_or_empty d))"
    and "\<forall>m sims. doc_vectors st = Some m \<longrightarrow>
           transform_cosine eng (vectorizer st) m query = Inr sims \<longrightarrow>
           (\<forall>s \<in> set sims. s \<le> 5 / 100)"
  shows "retrieve_relevant_chunks eng st query top_k = Inr []"
  using assms(3) search_nothing [OF assms(4,5)]
  by (simp add: only_stop_words_iff retrieve_no_key_terms)

theorem stop_words_without_match_return_nothing_witness:
  "is_ascii ''the a an'' \<and> only_stop_words ''the a an'' \<and> documents (built sample_docs) \<noteq> []
   \<and> retrieve_relevant_chunks zero_engine (built sample_docs) ''the a an'' 3 = Inr []"
proof -
  have i: "is_ascii ''the a an''" by code_simp
  have j: "\<forall>d \<in> set (documents (built sample_docs)). is_ascii (content_or_empty d)"
    by code_simp
  have a: "only_stop_words ''the a an''" by code_simp
  have b: "\<forall>d \<in> set (documents (built sample_docs)). \<forall>t \<in> set (search_terms ''the a an'').
           \<not> sublist t (lower (content_or_empty d))"
    by code_simp
  have c: "\<forall>m sims. doc_vectors (built sample_docs) = Some m \<longrightarrow>
           transform_cosine zero_engine (vectorizer (built sample_docs)) m ''the a an'' = Inr sims \<longrightarrow>
           (\<forall>s \<in> set sims. s \<le> 5 / 100)"
    by (auto simp: zero_engine_def fixed_engine_def)
  have d: "documents (built sample_docs) \<noteq> []"
    by (simp add: built_def sample_docs_def)
  from stop_words_without_match_return_nothing [OF i j a b c, of 3] i a d show ?thesis by simp
qed

section \<open>Properties of the retriever: the dictionary of matches\<close>

text \<open>
  Assigning to a key of \<open>all_matches\<close>, and the dictionary built from the exact matches when
  the file names are present and pairwise distinct.
\<close>

lemma map_of_dict_set: "map_of (dict_set m k v) k' = (if k' = k then Some v else map_of m k')"
  by (induction m k v rule: dict_set.induct) auto

lemma keys_dict_set:
  "map fst (dict_set m k v) = (if k \<in> fst ` set m then map fst m else map fst m @ [k])"
  by (induction m k v rule: dict_set.induct) (auto simp: image_iff)

lemma dict_set_fresh: "k \<notin> fst ` set m \<Longrightarrow> dict_set m k v = m @ [(k, v)]"
  by (induction m k v rule: dict_set.induct) auto

lemma add_exact_distinct:
  assumes "\<forall>e \<in> set ex. file_name (doc e) \<noteq> None"
    and "distinct (map (\<lambda>e. file_name (doc e)) ex)"
    and "\<forall>e \<in> set ex. name_of e \<notin> fst ` set m"
  shows "add_exact ex m = Inr (m @ map (\<lambda>e. (name_of e, e)) ex)"
  using assms
proof (induction ex arbitrary: m)
  case Nil
  then show ?case by simp
next
  case (Cons e ex)
  from Cons.prems obtain n where n: "file_name (doc e) = Some n" by auto
  then have ne: "name_of e = n" by (simp add: name_of_def)
  have fresh: "n \<notin> fst ` set m" using Cons.prems(3) ne by auto
  have "\<forall>e' \<in> set ex. name_of e' \<notin> fst ` set (m @ [(n, e)])"
  proof
    fix e' assume e': "e' \<in> set ex"
    then obtain n' where n': "file_name (doc e') = Some n'" using Cons.prems(1) by auto
    have "n' \<noteq> n" using Cons.prems(2) e' n n' by (auto simp: image_iff)
    moreover have "name_of e' \<notin> fst ` set m" using Cons.prems(3) e' by auto
    ultimately show "name_of e' \<notin> fst ` set (m @ [(n, e)])"
      using n' by (auto simp: name_of_def)
  qed
  with Cons.IH [of "m @ [(n, e)]"] Cons.prems
  have "add_exact ex (m @ [(n, e)]) = Inr ((m @ [(n, e)]) @ map (\<lambda>e. (name_of e, e)) ex)"
    by simp
  then show ?case using n ne fresh by (simp add: dict_set_fresh)
qed

lemma exact_match_doc: "e \<in> set (exact_match terms d) \<Longrightarrow> doc e = d \<and> match_type e = Exact"
  by (auto simp: exact_match_def split: prod.splits if_splits)

lemma map_doc_exact_matches:
  "map doc (exact_matches docs q) = filter (\<lambda>d. exact_match (search_terms q) d \<noteq> []) docs"
  by (induction docs) (auto simp: exact_matches_def exact_match_def split: prod.splits)

lemma exact_matches_names:
  assumes "\<forall>d \<in> set docs. file_name d \<noteq> None" and "distinct (map file_name docs)"
  shows "(\<forall>e \<in> set (exact_matches docs q). file_name (doc e) \<noteq> None)
     \<and> distinct (map (\<lambda>e. file_name (doc e)) (exact_matches docs q))"
proof -
  let ?ex = "exact_matches docs q"
  let ?P = "\<lambda>d. exact_match (search_terms q) d \<noteq> []"
  have m: "map doc ?ex = filter ?P docs" by (rule map_doc_exact_matches)
  have "doc ` set ?ex \<subseteq> set docs"
    using arg_cong [OF m, of set] by auto
  then have a: "\<forall>e \<in> set ?ex. file_name (doc e) \<noteq> None" using assms(1) by auto
  have "map (\<lambda>e. file_name (doc e)) ?ex = map file_name (map doc ?ex)" by simp
  also have "\<dots> = map file_name (filter ?P docs)" by (simp only: m)
  finally have "distinct (map (\<lambda>e. file_name (doc e)) ?ex)"
    using assms(2) by (simp add: distinct_map_filter)
  with a show ?thesis by simp
qed

lemma distinct_name_of:
  assumes "\<forall>e \<in> set ex. file_name (doc e) \<noteq> None"
    and "distinct (map (\<lambda>e. file_name (doc e)) ex)"
  shows "distinct (map name_of ex)"
proof -
  have "map (\<lambda>e. file_name (doc e)) ex = map Some (map name_of ex)"
    using assms(1) by (induction ex) (auto simp: name_of_def)
  with assms(2) have "distinct (map Some (map name_of ex))" by simp
  then show ?thesis by (simp only: distinct_map)
qed

text \<open>
  The loop over \<open>top_indices\<close> raises nothing exactly when every index is in range; it then
  keeps the indices whose score passes 0.05, in order.
\<close>

lemma tfidf_matches_valid:
  assumes "\<forall>i \<in> set idxs. i < length sims \<and> (sims ! i > 5 / 100 \<longrightarrow> i < length docs)"
  shows "tfidf_matches docs sims idxs
     = Inr (map (\<lambda>i. hit (docs ! i) (sims ! i) Tfidf) (filter (\<lambda>i. sims ! i > 5 / 100) idxs))"
  using assms by (induction idxs) (auto simp: hit_def)

lemma set_py_take: "set (py_take k xs) \<subseteq> set xs"
  by (auto simp: py_take_def dest: in_set_takeD)

lemma set_top_indices: "set (top_indices eng n sims k) \<subseteq> set (argsort eng sims)"
  using set_py_take [of "min k (int n)" "rev (argsort eng sims)"] by (simp add: top_indices_def)

section \<open>Properties of the retriever: the empty query and the exact scores\<close>

lemma exact_match_empty_term: "exact_match [[]] d = [hit d (1 / 2) Exact]"
  by (simp add: exact_match_def hit_def term_score_def)

lemma search_terms_empty: "search_terms [] = [[]]"
  by (simp add: search_terms_def lower_def date_patterns_def)

lemma exact_matches_empty_query:
  "exact_matches docs [] = map (\<lambda>d. hit d (1 / 2) Exact) docs"
  by (induction docs) (simp_all add: exact_matches_def search_terms_empty exact_match_empty_term)

lemma sort_by_score_const:
  "\<forall>x \<in> set xs. similarity_score x = c \<Longrightarrow> sort_by_score xs = xs"
proof -
  assume a: "\<forall>x \<in> set xs. similarity_score x = c"
  then have "map (\<lambda>d. - similarity_score d) xs = replicate (length xs) (- c)"
    by (induction xs) auto
  then have "sorted (map (\<lambda>d. - similarity_score d) xs)" by (simp add: sorted_replicate)
  then show ?thesis unfolding sort_by_score_def by (rule sort_key_id_if_sorted)
qed

lemma dedup_distinct:
  assumes "\<forall>e \<in> set xs. file_name (doc e) \<noteq> None"
    and "distinct (map name_of xs)"
    and "\<forall>e \<in> set xs. name_of e \<notin> fst ` seen"
  shows "dedup seen xs = Inr xs"
  using assms
proof (induction xs arbitrary: seen)
  case Nil
  then show ?case by simp
next
  case (Cons e xs)
  from Cons.prems obtain n where n: "file_name (doc e) = Some n" by auto
  then have ne: "name_of e = n" by (simp add: name_of_def)
  let ?id = "(n, take 100 (content_or_empty (doc e)))"
  have notin: "?id \<notin> seen" using Cons.prems(3) ne by (auto simp: image_iff)
  have "\<forall>e' \<in> set xs. name_of e' \<notin> fst ` insert ?id seen"
  proof
    fix e' assume e': "e' \<in> set xs"
    then have "name_of e' \<in> name_of ` set xs" by (rule imageI)
    then have "name_of e' \<noteq> name_of e" using Cons.prems(2) by auto
    moreover have "name_of e' \<notin> fst ` seen" using Cons.prems(3) e' by simp
    ultimately show "name_of e' \<notin> fst ` insert ?id seen" using ne by simp
  qed
  with Cons.IH [of "insert ?id seen"] Cons.prems have "dedup (insert ?id seen) xs = Inr xs" by simp
  with n notin show ?case by simp
qed

lemma py_take_nonneg: "0 \<le> k \<Longrightarrow> py_take k xs = take (nat k) xs"
  by (simp add: py_take_def)

lemma vector_matches_low:
  assumes "doc_vectors st = Some m" and "transform_cosine eng (vectorizer st) m q = Inr sims"
    and "\<forall>s \<in> set sims. s \<le> 5 / 100" and "\<forall>i \<in> set (argsort eng sims). i < length sims"
  shows "vector_matches eng st q k = Inr []"
proof -
  let ?idxs = "top_indices eng (length (documents st)) sims k"
  have v: "\<forall>i \<in> set ?idxs. i < length sims" using set_top_indices assms(4) by blast
  have "\<forall>i \<in> set ?idxs. \<not> sims ! i > 5 / 100"
  proof
    fix i assume "i \<in> set ?idxs"
    with v have "sims ! i \<in> set sims" by simp
    with assms(3) show "\<not> sims ! i > 5 / 100" by fastforce
  qed
  with v have "tfidf_matches (documents st) sims ?idxs = Inr []"
    by (subst tfidf_matches_valid) (auto simp: filter_empty_conv)
  with assms(1,2) show ?thesis by (simp add: vector_matches_def)
qed

text \<open>
  When the first round returns results without duplicate file names, or returns nothing for a
  query without key terms, the other two strategies contribute nothing.
\<close>

lemma retrieve_body_first_round:
  assumes "search_with_query eng st q k = Inr r"
    and "r = [] \<longrightarrow> key_term_list q = []"
    and "dedup {} r = Inr r"
  shows "retrieve_body eng st q k = Inr (py_take k (sort_by_score r))"
proof (cases "r = []")
  case True
  with assms show ?thesis
    by (simp add: retrieve_body_def strategy2_def extract_key_terms_def)
next
  case False
  with assms show ?thesis by (simp add: retrieve_body_def)
qed

lemma retrieve_empty_query:
  assumes names: "\<forall>d \<in> set (documents st). file_name d \<noteq> None"
    and dist: "distinct (map file_name (documents st))"
    and ne: "documents st \<noteq> []"
    and dv: "doc_vectors st = Some m"
    and tc: "transform_cosine eng (vectorizer st) m [] = Inr sims"
    and low: "\<forall>s \<in> set sims. s \<le> 5 / 100"
    and idx: "\<forall>i \<in> set (argsort eng sims). i < length sims"
    and k: "0 \<le> top_k"
  shows "retrieve_relevant_chunks eng st [] top_k
     = Inr (map (\<lambda>d. hit d (1 / 2) Exact) (take (nat top_k) (documents st)))"
proof -
  let ?ex = "exact_matches (documents st) []"
  define r where "r = take (nat top_k) ?ex"
  have ex: "?ex = map (\<lambda>d. hit d (1 / 2) Exact) (documents st)"
    by (rule exact_matches_empty_query)
  have half: "\<forall>x \<in> set ?ex. similarity_score x = 1 / 2" by (auto simp: ex hit_def)
  from exact_matches_names [OF names dist, of "[]"]
  have pres: "\<forall>e \<in> set ?ex. file_name (doc e) \<noteq> None"
    and dn: "distinct (map name_of ?ex)"
    by (simp_all add: distinct_name_of)
  have vm: "vector_matches eng st [] top_k = Inr []"
    by (rule vector_matches_low [OF dv tc low idx])
  have "add_exact ?ex [] = Inr ([] @ map (\<lambda>e. (name_of e, e)) ?ex)"
    using exact_matches_names [OF names dist, of "[]"] by (intro add_exact_distinct) simp_all
  with vm have "merged_matches eng st [] top_k = Inr (map (\<lambda>e. (name_of e, e)) ?ex)"
    by (simp add: merged_matches_def)
  then have "search_body eng st [] top_k = Inr (py_take top_k (sort_by_score ?ex))"
    by (simp add: search_body_def comp_def)
  then have s1: "search_with_query eng st [] top_k = Inr r"
    using k by (simp add: search_with_query_def sort_by_score_const [OF half] py_take_nonneg r_def)
  have kt: "key_term_list [] = []"
    by (simp add: key_term_list_def cleaned_def lower_def)
  have pres_r: "\<forall>e \<in> set r. file_name (doc e) \<noteq> None"
    using pres by (auto simp: r_def dest: in_set_takeD)
  have dn_r: "distinct (map name_of r)"
    using dn by (simp add: r_def take_map [symmetric] distinct_take del: take_map)
  have dd: "dedup {} r = Inr r"
    by (rule dedup_distinct [OF pres_r dn_r]) simp
  have half_r: "\<forall>x \<in> set r. similarity_score x = 1 / 2"
    using half by (auto simp: r_def dest: in_set_takeD)
  have "retrieve_body eng st [] top_k = Inr (py_take top_k (sort_by_score r))"
    using s1 kt dd by (intro retrieve_body_first_round) simp_all
  moreover have "sort_by_score r = r" by (rule sort_by_score_const [OF half_r])
  moreover have "py_take top_k r = r" using k by (simp add: py_take_nonneg r_def)
  ultimately have "retrieve_body eng st [] top_k = Inr r" by simp
  with ne dv show ?thesis
    by (simp add: retrieve_relevant_chunks_def ex take_map r_def)
qed

text \<open>
  Every search term of a non-empty query is a non-empty string, so an exact match scores at
  least \<open>1/20 + 1/2\<close>.
\<close>

lemma findall_nonempty:
  "(\<And>s n. m s = Some n \<Longrightarrow> 0 < n) \<Longrightarrow> [] \<notin> set (findall m skip pw s)"
  by (induction m skip pw s rule: findall.induct) (auto split: option.splits if_splits)

lemma match_month_year_pos: "match_month_year ms s = Some n \<Longrightarrow> 0 < n"
  by (induction ms) (auto simp: Let_def split: if_splits)

lemma match_day_year_pos: "match_day_year s = Some n \<Longrightarrow> 0 < n"
  by (cases s rule: match_day_year.cases) (auto split: if_splits)

lemma match_year_day_pos: "match_year_day s = Some n \<Longrightarrow> 0 < n"
  by (auto simp: match_year_day_def split: if_splits)

lemma search_terms_nonempty: "q \<noteq> [] \<Longrightarrow> [] \<notin> set (search_terms q)"
  using findall_nonempty [of "match_month_year months", OF match_month_year_pos]
    findall_nonempty [of match_day_year, OF match_day_year_pos]
    findall_nonempty [of match_year_day, OF match_year_day_pos]
  by (auto simp: search_terms_def date_patterns_def lower_def)

lemma term_score_bounds: "t \<noteq> [] \<Longrightarrow> 11 / 20 \<le> term_score t \<and> term_score t \<le> 1"
proof -
  assume "t \<noteq> []"
  then have "1 \<le> real (length t)" by (cases t) simp_all
  then show ?thesis by (simp add: term_score_def)
qed

lemma scan_terms_bounds:
  assumes "[] \<notin> set ts" and "ms \<le> 1" and "mf \<longrightarrow> 11 / 20 \<le> ms"
    and "scan_terms c ts (ms, mf) = (ms', mf')"
  shows "ms' \<le> 1 \<and> (mf' \<longrightarrow> 11 / 20 \<le> ms')"
  using assms
proof (induction ts arbitrary: ms mf)
  case Nil
  then show ?case by simp
next
  case (Cons t ts)
  then have t: "t \<noteq> []" by auto
  show ?case
  proof (cases "sublist t c")
    case True
    with Cons.prems have "scan_terms c ts (max ms (term_score t), True) = (ms', mf')" by simp
    moreover have "max ms (term_score t) \<le> 1" "11 / 20 \<le> max ms (term_score t)"
      using term_score_bounds [OF t] Cons.prems(2) by auto
    ultimately show ?thesis using Cons.IH [of "max ms (term_score t)" True] Cons.prems(1) by simp
  next
    case False
    with Cons.prems have "scan_terms c ts (ms, mf) = (ms', mf')" by simp
    then show ?thesis using Cons.IH [of ms mf] Cons.prems by simp
  qed
qed

lemma exact_matches_bounds:
  assumes "q \<noteq> []" and "e \<in> set (exact_matches docs q)"
  shows "11 / 20 \<le> similarity_score e \<and> similarity_score e \<le> 1 \<and> match_type e = Exact"
proof -
  from assms(2) obtain d where m: "e \<in> set (exact_match (search_terms q) d)"
    by (auto simp: exact_matches_def)
  obtain ms mf where sc: "scan_terms (lower (content_or_empty d)) (search_terms q) (0, False) = (ms, mf)"
    by (cases "scan_terms (lower (content_or_empty d)) (search_terms q) (0, False)")
  with m have mf: "mf" and e: "e = \<lparr>doc = d, similarity_score = ms, match_type = Exact\<rparr>"
    by (auto simp: exact_match_def split: if_splits)
  from scan_terms_bounds [OF search_terms_nonempty [OF assms(1)] _ _ sc] mf e
  show ?thesis by simp
qed

text \<open>
  C9. For the empty query every document is an exact match with score 0.5, since the empty
  string is a substring of every content. When the file names are present and pairwise
  distinct (a document's file name is unique within a load), the cosine scores of the empty
  query do not pass 0.05 (they are all zero) and \<open>argsort\<close> returns indices in range,
  \<open>retrieve_relevant_chunks\<close> with a count \<open>k \<ge> 0\<close> returns the first \<open>min(k, N)\<close> documents,
  each with score 0.5 and kind exact. For a non-empty query, over ASCII text, every exact
  match has a score of at least 0.55 and at most 1.
\<close>

theorem empty_query_matches_every_document:
  "(documents st \<noteq> [] \<and> (\<forall>d \<in> set (documents st). file_name d \<noteq> None)
      \<and> distinct (map file_name (documents st))
      \<and> doc_vectors st = Some m \<and> transform_cosine eng (vectorizer st) m [] = Inr sims
      \<and> (\<forall>s \<in> set sims. s \<le> 5 / 100) \<and> (\<forall>i \<in> set (argsort eng sims). i < length sims)
      \<and> 0 \<le> top_k \<longrightarrow>
        exact_matches (documents st) [] = map (\<lambda>d. hit d (1 / 2) Exact) (documents st)
      \<and> (\<exists>r. retrieve_relevant_chunks eng st [] top_k = Inr r
           \<and> r = map (\<lambda>d. hit d (1 / 2) Exact) (take (nat top_k) (documents st))
           \<and> length r = min (nat top_k) (length (documents st))))
   \<and> (query \<noteq> [] \<and> is_ascii query \<and> (\<forall>d \<in> set docs. is_ascii (content_or_empty d)) \<longrightarrow>
        (\<forall>e \<in> set (exact_matches docs query).
           11 / 20 \<le> similarity_score e \<and> similarity_score e \<le> 1 \<and> match_type e = Exact))"
proof (intro conjI impI ballI)
  assume a: "documents st \<noteq> [] \<and> (\<forall>d \<in> set (documents st). file_name d \<noteq> None)
      \<and> distinct (map file_name (documents st))
      \<and> doc_vectors st = Some m \<and> transform_cosine eng (vectorizer st) m [] = Inr sims
      \<and> (\<forall>s \<in> set sims. s \<le> 5 / 100) \<and> (\<forall>i \<in> set (argsort eng sims). i < length sims)
      \<and> 0 \<le> top_k"
  show "exact_matches (documents st) [] = map (\<lambda>d. hit d (1 / 2) Exact) (documents st)"
    by (rule exact_matches_empty_query)
  from a have "retrieve_relevant_chunks eng st [] top_k
     = Inr (map (\<lambda>d. hit d (1 / 2) Exact) (take (nat top_k) (documents st)))"
    by (intro retrieve_empty_query [where m = m and sims = sims]) blast+
  then show "\<exists>r. retrieve_relevant_chunks eng st [] top_k = Inr r
           \<and> r = map (\<lambda>d. hit d (1 / 2) Exact) (take (nat top_k) (documents st))
           \<and> length r = min (nat top_k) (length (documents st))"
    by (simp add: min.commute)
next
  fix e
  assume "query \<noteq> [] \<and> is_ascii query \<and> (\<forall>d \<in> set docs. is_ascii (content_or_empty d))"
    and "e \<in> set (exact_matches docs query)"
  then show "11 / 20 \<le> similarity_score e" "similarity_score e \<le> 1" "match_type e = Exact"
    using exact_matches_bounds [of query e docs] by simp_all
qed

text \<open>
  The empty query on the three sample documents with count 2, and the exact match of
  \<open>python\<close>, of score 0.8.
\<close>

theorem empty_query_matches_every_document_witness:
  "retrieve_relevant_chunks zero_engine (built sample_docs) [] 2
     = Inr [hit (sample_docs ! 0) (1 / 2) Exact, hit (sample_docs ! 1) (1 / 2) Exact]
   \<and> exact_matches sample_docs ''python'' = [hit (sample_docs ! 0) (4 / 5) Exact]
   \<and> 11 / 20 \<le> similarity_score (hit (sample_docs ! 0) (4 / 5) Exact)
   \<and> similarity_score (hit (sample_docs ! 0) (4 / 5) Exact) \<le> 1"
proof -
  let ?st = "built sample_docs"
  have h: "documents ?st \<noteq> [] \<and> (\<forall>d \<in> set (documents ?st). file_name d \<noteq> None)
      \<and> distinct (map file_name (documents ?st))
      \<and> doc_vectors ?st = Some () \<and> transform_cosine zero_engine (vectorizer ?st) () [] = Inr [0, 0, 0]
      \<and> (\<forall>s \<in> set [0, 0, 0 :: real]. s \<le> 5 / 100)
      \<and> (\<forall>i \<in> set (argsort zero_engine [0, 0, 0]). i < length [0, 0, 0 :: real])
      \<and> (0 :: int) \<le> 2"
    by code_simp
  have x: "exact_matches sample_docs ''python'' = [hit (sample_docs ! 0) (4 / 5) Exact]"
    by code_simp
  have q: "''python'' \<noteq> [] \<and> is_ascii ''python''
      \<and> (\<forall>d \<in> set sample_docs. is_ascii (content_or_empty d))"
    by code_simp
  have t: "take (nat 2) (documents ?st) = [sample_docs ! 0, sample_docs ! 1]"
    by (simp add: built_def sample_docs_def)
  note inst = empty_query_matches_every_document
    [of ?st "()" zero_engine "[0, 0, 0]" 2 "''python''" sample_docs]
  from inst h t have "retrieve_relevant_chunks zero_engine ?st [] 2
     = Inr [hit (sample_docs ! 0) (1 / 2) Exact, hit (sample_docs ! 1) (1 / 2) Exact]"
    by auto
  moreover from inst q x have "11 / 20 \<le> similarity_score (hit (sample_docs ! 0) (4 / 5) Exact)
   \<and> similarity_score (hit (sample_docs ! 0) (4 / 5) Exact) \<le> 1"
    by simp
  ultimately show ?thesis using x by simp
qed

section \<open>Properties of the retriever: merging exact and vector matches\<close>

lemma tfidf_matches_Inr:
  "tfidf_matches docs sims idxs = Inr tf \<Longrightarrow>
   tf = map (\<lambda>i. hit (docs ! i) (sims ! i) Tfidf) (filter (\<lambda>i. sims ! i > 5 / 100) idxs)
   \<and> (\<forall>i \<in> set idxs. i < length sims \<and> (sims ! i > 5 / 100 \<longrightarrow> i < length docs))"
  by (induction idxs arbitrary: tf) (auto simp: hit_def split: if_splits sum.splits)

lemma set_dict_set: "set (dict_set m k v) \<subseteq> insert (k, v) (set m)"
  by (induction m k v rule: dict_set.induct) auto

lemma distinct_keys_dict_set: "distinct (map fst m) \<Longrightarrow> distinct (map fst (dict_set m k v))"
  by (simp add: keys_dict_set)

lemma keyed_dict_set:
  "keyed m \<Longrightarrow> file_name (doc v) = Some k \<Longrightarrow> keyed (dict_set m k v)"
  using set_dict_set [of m k v] by (auto simp: keyed_def distinct_keys_dict_set)

lemma keyed_map_of: "keyed m \<Longrightarrow> map_of m k = Some x \<Longrightarrow> file_name (doc x) = Some k"
  by (auto simp: keyed_def dest: map_of_SomeD)

lemma add_tfidf_keyed:
  "keyed m \<Longrightarrow> add_tfidf tf m = Inr am \<Longrightarrow> keyed am"
proof (induction tf arbitrary: m)
  case Nil
  then show ?case by simp
next
  case (Cons t tf)
  from Cons.prems(2) obtain n where n: "file_name (doc t) = Some n"
    by (cases "file_name (doc t)") auto
  show ?case
  proof (cases "map_of m n")
    case None
    with Cons.prems n have "add_tfidf tf (dict_set m n t) = Inr am" by simp
    moreover have "keyed (dict_set m n t)" using Cons.prems(1) n by (rule keyed_dict_set)
    ultimately show ?thesis by (rule Cons.IH [rotated])
  next
    case (Some e)
    let ?e' = "e\<lparr>similarity_score := max (similarity_score e) (similarity_score t),
                  match_type := Hybrid\<rparr>"
    have en: "file_name (doc ?e') = Some n" using keyed_map_of [OF Cons.prems(1) Some] by simp
    show ?thesis
    proof (cases "similarity_score e < similarity_score t")
      case True
      with Cons.prems n Some have "add_tfidf tf (dict_set m n ?e') = Inr am" by simp
      moreover have "keyed (dict_set m n ?e')" using Cons.prems(1) en by (rule keyed_dict_set)
      ultimately show ?thesis by (rule Cons.IH [rotated])
    next
      case False
      with Cons.prems n Some have "add_tfidf tf m = Inr am" by simp
      with Cons.prems(1) show ?thesis by (rule Cons.IH)
    qed
  qed
qed

lemma add_tfidf_Inr:
  "\<forall>t \<in> set tf. file_name (doc t) \<noteq> None \<Longrightarrow> \<exists>am. add_tfidf tf m = Inr am"
  by (induction tf arbitrary: m) (auto split: option.splits)

lemma add_tfidf_entry:
  assumes "map_of m n = Some x"
    and "add_tfidf tf m = Inr am"
    and "\<forall>t \<in> set tf. file_name (doc t) = Some n \<longrightarrow> similarity_score t = s"
  shows "map_of am n = Some (if similarity_score x < s \<and> (\<exists>t \<in> set tf. file_name (doc t) = Some n)
           then x\<lparr>similarity_score := max (similarity_score x) s, match_type := Hybrid\<rparr> else x)"
  using assms
proof (induction tf arbitrary: m x)
  case Nil
  then show ?case by simp
next
  case (Cons t tf)
  from Cons.prems(2) obtain n' where n': "file_name (doc t) = Some n'"
    by (cases "file_name (doc t)") auto
  have rest: "\<forall>t \<in> set tf. file_name (doc t) = Some n \<longrightarrow> similarity_score t = s"
    using Cons.prems(3) by simp
  show ?case
  proof (cases "n' = n")
    case True
    then have ts: "similarity_score t = s" using Cons.prems(3) n' by simp
    show ?thesis
    proof (cases "similarity_score x < s")
      case lt: True
      let ?x' = "x\<lparr>similarity_score := max (similarity_score x) s, match_type := Hybrid\<rparr>"
      have "add_tfidf tf (dict_set m n ?x') = Inr am"
        using Cons.prems(1,2) n' True ts lt by simp
      moreover have "map_of (dict_set m n ?x') n = Some ?x'" by (simp add: map_of_dict_set)
      ultimately have "map_of am n = Some (if similarity_score ?x' < s
            \<and> (\<exists>t \<in> set tf. file_name (doc t) = Some n)
           then ?x'\<lparr>similarity_score := max (similarity_score ?x') s, match_type := Hybrid\<rparr> else ?x')"
        using rest by (intro Cons.IH) 
      then show ?thesis using lt n' True by simp
    next
      case ge: False
      have "add_tfidf tf m = Inr am" using Cons.prems(1,2) n' True ts ge by simp
      from Cons.IH [OF Cons.prems(1) this rest] ge show ?thesis by simp
    qed
  next
    case False
    obtain m' where m': "add_tfidf tf m' = Inr am" and mo: "map_of m' n = Some x"
    proof (cases "map_of m n'")
      case None
      with Cons.prems n' have "add_tfidf tf (dict_set m n' t) = Inr am" by simp
      moreover have "map_of (dict_set m n' t) n = Some x"
        using False Cons.prems(1) by (simp add: map_of_dict_set)
      ultimately show ?thesis by (rule that)
    next
      case (Some e)
      let ?e' = "e\<lparr>similarity_score := max (similarity_score e) (similarity_score t),
                  match_type := Hybrid\<rparr>"
      show ?thesis
      proof (cases "similarity_score e < similarity_score t")
        case True
        with Cons.prems n' Some have "add_tfidf tf (dict_set m n' ?e') = Inr am" by simp
        moreover have "map_of (dict_set m n' ?e') n = Some x"
          using False Cons.prems(1) by (simp add: map_of_dict_set)
        ultimately show ?thesis by (rule that)
      next
        case ge: False
        with Cons.prems n' Some have "add_tfidf tf m = Inr am" by simp
        then show ?thesis using Cons.prems(1) by (rule that)
      qed
    qed
    from Cons.IH [OF mo m' rest] False n' show ?thesis by simp
  qed
qed

lemma keyed_filter_doc:
  assumes "keyed am" and "map_of am n = Some x" and "file_name d = Some n" and "doc x = d"
  shows "filter (\<lambda>y. doc y = d) (map snd am) = [x]"
proof -
  have key: "filter (\<lambda>p. fst p = n) am = [(n, x)]"
    using assms(1,2) unfolding keyed_def
  proof (induction am)
    case Nil
    then show ?case by simp
  next
    case (Cons p am)
    show ?case
    proof (cases "fst p = n")
      case True
      with Cons.prems have "p = (n, x)" by (cases p) simp
      moreover have "filter (\<lambda>p. fst p = n) am = []"
        using Cons.prems True by (auto simp: filter_empty_conv image_iff)
      ultimately show ?thesis by simp
    next
      case False
      with Cons show ?thesis by (cases p) auto
    qed
  qed
  have "filter (\<lambda>p. doc (snd p) = d) am = filter (\<lambda>p. fst p = n) am"
  proof (rule filter_cong [OF refl])
    fix p assume p: "p \<in> set am"
    obtain k v where kv: "p = (k, v)" by (cases p)
    with p assms(1) have kn: "file_name (doc v) = Some k" by (auto simp: keyed_def)
    show "(doc (snd p) = d) = (fst p = n)"
    proof
      assume "doc (snd p) = d"
      with kv kn assms(3) show "fst p = n" by simp
    next
      assume "fst p = n"
      with kv p have "(n, v) \<in> set am" by simp
      with assms(1) have "map_of am n = Some v" by (simp add: keyed_def)
      with assms(2,4) kv show "doc (snd p) = d" by simp
    qed
  qed
  then have "filter (\<lambda>y. doc y = d) (map snd am) = map snd (filter (\<lambda>p. fst p = n) am)"
    by (simp add: filter_map comp_def)
  with key show ?thesis by simp
qed

lemma vector_matches_Inr:
  assumes "vector_matches eng st q k = Inr tf"
  obtains m sims where "doc_vectors st = Some m"
    and "transform_cosine eng (vectorizer st) m q = Inr sims"
    and "tfidf_matches (documents st) sims (top_indices eng (length (documents st)) sims k) = Inr tf"
  using assms by (auto simp: vector_matches_def split: option.splits sum.splits)

lemma tfidf_matches_in_docs:
  assumes "tfidf_matches docs sims idxs = Inr tf" and "t \<in> set tf"
  obtains i where "i < length docs" and "i < length sims" and "sims ! i > 5 / 100"
    and "t = hit (docs ! i) (sims ! i) Tfidf"
  using tfidf_matches_Inr [OF assms(1)] assms(2) by auto

lemma exact_matches_keyed:
  assumes "\<forall>d \<in> set docs. file_name d \<noteq> None" and "distinct (map file_name docs)"
  shows "add_exact (exact_matches docs q) [] = Inr (map (\<lambda>e. (name_of e, e)) (exact_matches docs q))"
    and "keyed (map (\<lambda>e. (name_of e, e)) (exact_matches docs q))"
proof -
  let ?ex = "exact_matches docs q"
  from exact_matches_names [OF assms, of q]
  have pres: "\<forall>e \<in> set ?ex. file_name (doc e) \<noteq> None"
    and d: "distinct (map (\<lambda>e. file_name (doc e)) ?ex)" by simp_all
  have "add_exact ?ex [] = Inr ([] @ map (\<lambda>e. (name_of e, e)) ?ex)"
    using pres d by (intro add_exact_distinct) simp_all
  then show "add_exact ?ex [] = Inr (map (\<lambda>e. (name_of e, e)) ?ex)" by simp
  have "distinct (map name_of ?ex)" using pres d by (rule distinct_name_of)
  moreover have "\<forall>e \<in> set ?ex. file_name (doc e) = Some (name_of e)"
    using pres by (auto simp: name_of_def)
  ultimately show "keyed (map (\<lambda>e. (name_of e, e)) ?ex)"
    by (auto simp: keyed_def comp_def)
qed

lemma filter_take_singleton:
  assumes "filter P xs = [x]"
  shows "filter P (take n xs) = [] \<or> filter P (take n xs) = [x]"
proof -
  have "filter P (take n xs) @ filter P (drop n xs) = [x]"
    using assms by (simp add: filter_append [symmetric] del: filter_append)
  then show ?thesis by (auto simp: append_eq_Cons_conv)
qed

lemma py_take_is_take: "\<exists>n. py_take k xs = take n xs"
  by (auto simp: py_take_def)

lemma py_take_all: "int (length xs) \<le> k \<Longrightarrow> py_take k xs = xs"
  by (auto simp: py_take_def)

lemma filter_result_singleton:
  assumes "filter P vals = [x]"
  shows "length (filter P (py_take k (sort_by_score vals))) \<le> 1
     \<and> (int (length vals) \<le> k \<longrightarrow> filter P (py_take k (sort_by_score vals)) = [x])"
proof -
  have f: "filter P (sort_by_score vals) = [x]"
    using assms by (simp add: sort_by_score_def filter_sort)
  obtain n where n: "py_take k (sort_by_score vals) = take n (sort_by_score vals)"
    using py_take_is_take by blast
  from filter_take_singleton [OF f, of n] n
  have "length (filter P (py_take k (sort_by_score vals))) \<le> 1" by auto
  moreover have "int (length vals) \<le> k \<longrightarrow> filter P (py_take k (sort_by_score vals)) = [x]"
    using f by (simp add: py_take_all sort_by_score_def)
  ultimately show ?thesis by simp
qed

lemma merge_entry:
  assumes names: "\<forall>d \<in> set (documents st). file_name d \<noteq> None"
    and dist: "distinct (map file_name (documents st))"
    and vm: "vector_matches eng st q k = Inr tf"
    and e: "e \<in> set (exact_matches (documents st) q)"
    and t: "t \<in> set tf"
    and same: "doc t = doc e"
  shows "\<exists>am. merged_matches eng st q k = Inr am
     \<and> filter (\<lambda>x. doc x = doc e) (map snd am)
        = [\<lparr>doc = doc e, similarity_score = max (similarity_score e) (similarity_score t),
            match_type = (if similarity_score e < similarity_score t then Hybrid else Exact)\<rparr>]"
proof -
  let ?docs = "documents st"
  let ?ex = "exact_matches ?docs q"
  let ?m1 = "map (\<lambda>e. (name_of e, e)) ?ex"
  from vm obtain m sims where
    tm: "tfidf_matches ?docs sims (top_indices eng (length ?docs) sims k) = Inr tf"
    by (rule vector_matches_Inr)
  note ae = exact_matches_keyed [OF names dist, of q]
  have tf_names: "\<forall>t \<in> set tf. file_name (doc t) \<noteq> None"
  proof
    fix t' assume "t' \<in> set tf"
    with tm obtain i where "i < length ?docs" "t' = hit (?docs ! i) (sims ! i) Tfidf"
      by (rule tfidf_matches_in_docs)
    then show "file_name (doc t') \<noteq> None" using names by (simp add: hit_def)
  qed
  then obtain am where am: "add_tfidf tf ?m1 = Inr am" using add_tfidf_Inr by blast
  have mm: "merged_matches eng st q k = Inr am"
    by (simp add: merged_matches_def vm ae(1) am)
  have ka: "keyed am" using ae(2) am by (rule add_tfidf_keyed)
  from e have "doc e \<in> doc ` set ?ex" by simp
  then have "doc e \<in> set (map doc ?ex)" by simp
  then have "doc e \<in> set ?docs" unfolding map_doc_exact_matches by simp
  with names obtain n where n: "file_name (doc e) = Some n" by auto
  then have ne: "name_of e = n" by (simp add: name_of_def)
  have "(n, e) \<in> set ?m1" using e ne by (auto simp: image_iff)
  then have mo: "map_of ?m1 n = Some e" using ae(2) by (simp add: keyed_def)
  from tm t obtain i where i: "i < length ?docs" "t = hit (?docs ! i) (sims ! i) Tfidf"
    by (rule tfidf_matches_in_docs)
  have uniq: "\<forall>t' \<in> set tf. file_name (doc t') = Some n \<longrightarrow> similarity_score t' = similarity_score t"
  proof (intro ballI impI)
    fix t' assume "t' \<in> set tf" and tn: "file_name (doc t') = Some n"
    with tm obtain j where j: "j < length ?docs" "t' = hit (?docs ! j) (sims ! j) Tfidf"
      by (auto elim: tfidf_matches_in_docs)
    have "file_name (?docs ! j) = file_name (?docs ! i)"
      using i j tn n same by (simp add: hit_def)
    then have "j = i" using nth_eq_iff_index_eq [OF dist, of j i] i(1) j(1) by simp
    with i j show "similarity_score t' = similarity_score t" by simp
  qed
  have "file_name (doc t) = Some n" using same n by simp
  with t have ex_t: "\<exists>t' \<in> set tf. file_name (doc t') = Some n" by (rule bexI [rotated])
  have kind: "match_type e = Exact"
    using e by (auto simp: exact_matches_def dest: exact_match_doc)
  let ?x = "\<lparr>doc = doc e, similarity_score = max (similarity_score e) (similarity_score t),
            match_type = (if similarity_score e < similarity_score t then Hybrid else Exact)\<rparr>"
  from add_tfidf_entry [OF mo am uniq] ex_t
  have "map_of am n = Some (if similarity_score e < similarity_score t
           then e\<lparr>similarity_score := max (similarity_score e) (similarity_score t),
                  match_type := Hybrid\<rparr> else e)"
    by simp
  moreover have "(if similarity_score e < similarity_score t
           then e\<lparr>similarity_score := max (similarity_score e) (similarity_score t),
                  match_type := Hybrid\<rparr> else e) = ?x"
    using kind by (cases e) (simp add: max_def)
  ultimately have "map_of am n = Some ?x" by simp
  from keyed_filter_doc [OF ka this n] have "filter (\<lambda>y. doc y = doc e) (map snd am) = [?x]"
    by simp
  with mm show ?thesis by blast
qed

text \<open>
  C3, as the claim states it, fails. The first sample document is matched by both strategies
  for the query \<open>python\<close>: exactly, with score 0.8, and by cosine similarity, with score
  0.44. The update of \<open>all_matches\<close> is guarded by a strict comparison of the two scores, so
  the entry keeps its score 0.8, the maximum, and its kind \<open>exact\<close>; it does not become
  \<open>hybrid\<close>.
\<close>

theorem both_matched_stays_exact_counterexample:
  "exact_matches sample_docs ''python'' = [hit (sample_docs ! 0) (4 / 5) Exact]
   \<and> vector_matches python_engine (built sample_docs) ''python'' 3
       = Inr [hit (sample_docs ! 0) (11 / 25) Tfidf]
   \<and> search_with_query python_engine (built sample_docs) ''python'' 3
       = Inr [hit (sample_docs ! 0) (4 / 5) Exact]"
  by code_simp

text \<open>
  C3, amended. Let the file names be present and pairwise distinct, and let a document be
  matched in one round both exactly (entry \<open>e\<close>) and by cosine similarity (entry \<open>t\<close>), over
  ASCII text. Then the round raises nothing, \<open>all_matches\<close> holds exactly one entry for the
  document, its score is the maximum of the two scores, and its kind is \<open>hybrid\<close> when the
  cosine score is strictly greater than the exact score and \<open>exact\<close> otherwise. The result
  of the round, the sorted values cut to \<open>top_k\<close>, holds the document at most once, and
  exactly once, with that entry, when the cut removes nothing.
\<close>

theorem merge_keeps_higher_score:
  assumes "\<forall>d \<in> set (documents st). file_name d \<noteq> None"
    and "distinct (map file_name (documents st))"
    and "is_ascii query"
    and "\<forall>d \<in> set (documents st). is_ascii (content_or_empty d)"
    and "vector_matches eng st query top_k = Inr tf"
    and "e \<in> set (exact_matches (documents st) query)"
    and "t \<in> set tf"
    and "doc t = doc e"
  shows "\<exists>am. merged_matches eng st query top_k = Inr am
     \<and> filter (\<lambda>x. doc x = doc e) (map snd am)
        = [\<lparr>doc = doc e, similarity_score = max (similarity_score e) (similarity_score t),
            match_type = (if similarity_score e < similarity_score t then Hybrid else Exact)\<rparr>]
     \<and> search_with_query eng st query top_k = Inr (py_take top_k (sort_by_score (map snd am)))
     \<and> length (filter (\<lambda>x. doc x = doc e) (py_take top_k (sort_by_score (map snd am)))) \<le> 1
     \<and> (int (length am) \<le> top_k \<longrightarrow>
          filter (\<lambda>x. doc x = doc e) (py_take top_k (sort_by_score (map snd am)))
          = [\<lparr>doc = doc e, similarity_score = max (similarity_score e) (similarity_score t),
              match_type = (if similarity_score e < similarity_score t then Hybrid else Exact)\<rparr>])"
proof -
  from merge_entry [OF assms(1,2,5,6,7,8)] obtain am
    where mm: "merged_matches eng st query top_k = Inr am"
      and f: "filter (\<lambda>x. doc x = doc e) (map snd am)
        = [\<lparr>doc = doc e, similarity_score = max (similarity_score e) (similarity_score t),
            match_type = (if similarity_score e < similarity_score t then Hybrid else Exact)\<rparr>]"
    by blast
  have "search_with_query eng st query top_k = Inr (py_take top_k (sort_by_score (map snd am)))"
    by (simp add: search_with_query_def search_body_def mm)
  with mm f filter_result_singleton [OF f, of top_k] show ?thesis by auto
qed

text \<open>
  A document that is the single word \<open>python\<close>: exact score 0.8, cosine score 1, merged into
  one \<open>hybrid\<close> entry of score 1.
\<close>

theorem merge_keeps_higher_score_witness:
  "exact_matches short_docs ''python'' = [hit (short_docs ! 0) (4 / 5) Exact]
   \<and> vector_matches short_engine (built short_docs) ''python'' 3 = Inr [hit (short_docs ! 0) 1 Tfidf]
   \<and> search_with_query short_engine (built short_docs) ''python'' 3
       = Inr [hit (short_docs ! 0) 1 Hybrid]"
proof -
  let ?st = "built short_docs"
  let ?e = "hit (short_docs ! 0) (4 / 5) Exact"
  let ?t = "hit (short_docs ! 0) 1 Tfidf"
  have x: "exact_matches short_docs ''python'' = [?e]" by code_simp
  have v: "vector_matches short_engine ?st ''python'' 3 = Inr [?t]" by code_simp
  have m: "merged_matches short_engine ?st ''python'' 3 = Inr [(''lang.txt'', hit (short_docs ! 0) 1 Hybrid)]"
    by code_simp
  have h: "(\<forall>d \<in> set (documents ?st). file_name d \<noteq> None)
      \<and> distinct (map file_name (documents ?st)) \<and> is_ascii ''python''
      \<and> (\<forall>d \<in> set (documents ?st). is_ascii (content_or_empty d))"
    by code_simp
  have d: "documents ?st = short_docs" by (simp add: built_def)
  have "\<exists>am. merged_matches short_engine ?st ''python'' 3 = Inr am
     \<and> search_with_query short_engine ?st ''python'' 3 = Inr (py_take 3 (sort_by_score (map snd am)))"
    using merge_keeps_higher_score [of ?st "''python''" short_engine 3 "[?t]" ?e ?t] h v x d
    by (auto simp: hit_def)
  with m have "search_with_query short_engine ?st ''python'' 3
      = Inr (py_take 3 (sort_by_score [hit (short_docs ! 0) 1 Hybrid]))"
    by auto
  then have "search_with_query short_engine ?st ''python'' 3 = Inr [hit (short_docs ! 0) 1 Hybrid]"
    by (simp add: py_take_def sort_by_score_def)
  with x v show ?thesis by simp
qed

section \<open>Properties of the retriever: the order of a ranking\<close>








section \<open>Properties of the retriever: a larger count\<close>

















lemma dict_set_not_Nil: "dict_set m k v \<noteq> []"
  by (cases m) (auto split: if_splits)


























end
